theory Spec2Isabelle
  imports Main "HOL-Library.AList" "HOL-Library.Sublist"
begin

section \<open>Python values\<close>

text \<open>
  The module \<^verbatim>\<open>monitoring/zabbix_webcheck.py\<close> works on untyped data: the
  playbook's \<^verbatim>\<open>web_check\<close> argument and the records the Zabbix API returns.
  A value is \<^verbatim>\<open>None\<close>, a boolean, an integer, a string, a list or a
  dictionary with string keys (the keys of JSON objects). A dictionary is an
  association list: its order stands for the order in which Python iterates over it,
  a lookup takes the first entry with the key. Floating-point values are left out.
\<close>

datatype pyval =
    PNone
  | PBool bool
  | PInt int
  | PStr string
  | PList "pyval list"
  | PDict "(string \<times> pyval) list"

type_synonym pydict = "(string \<times> pyval) list"

text \<open>The exceptions that can be raised: Python's own, and whatever the API client raises.\<close>

datatype exc = KeyError | TypeError | IndexError | ApiError string

text \<open>Truth value testing (\<^verbatim>\<open>if x:\<close>, \<^verbatim>\<open>not x\<close>).\<close>

fun truthy :: "pyval \<Rightarrow> bool" where
  "truthy PNone = False"
| "truthy (PBool b) = b"
| "truthy (PInt i) = (i \<noteq> 0)"
| "truthy (PStr s) = (s \<noteq> [])"
| "truthy (PList xs) = (xs \<noteq> [])"
| "truthy (PDict d) = (d \<noteq> [])"

text \<open>
  The operator \<^verbatim>\<open>==\<close>: booleans compare as the integers 0 and 1, lists
  element by element, dictionaries by their key sets and the values under each key;
  values of different kinds are unequal.
\<close>

fun py_eq :: "pyval \<Rightarrow> pyval \<Rightarrow> bool" where
  "py_eq PNone PNone = True"
| "py_eq (PBool a) (PBool b) = (a = b)"
| "py_eq (PBool a) (PInt j) = ((if a then 1 else 0) = j)"
| "py_eq (PInt i) (PBool b) = (i = (if b then 1 else 0))"
| "py_eq (PInt i) (PInt j) = (i = j)"
| "py_eq (PStr s) (PStr t) = (s = t)"
| "py_eq (PList xs) (PList ys) = list_all2 py_eq xs ys"
| "py_eq (PDict a) (PDict b) =
     (set (map fst a) = set (map fst b) \<and>
      list_all (\<lambda>p. list_all (\<lambda>q. fst p \<noteq> fst q \<or> py_eq (snd p) (snd q)) b) a)"
| "py_eq _ _ = False"

text \<open>\<^verbatim>\<open>key in x\<close> for a string key: a key of a dictionary, a substring of a
  string, an element of a list; other values are not iterable.\<close>

fun py_contains :: "pyval \<Rightarrow> string \<Rightarrow> exc + bool" where
  "py_contains (PDict d) k = Inr (k \<in> set (map fst d))"
| "py_contains (PStr s) k = Inr (sublist k s)"
| "py_contains (PList xs) k = Inr (list_ex (py_eq (PStr k)) xs)"
| "py_contains _ k = Inl TypeError"

text \<open>\<^verbatim>\<open>x[key]\<close> for a string key: only a dictionary can be subscripted by one.\<close>

fun py_getitem :: "pyval \<Rightarrow> string \<Rightarrow> exc + pyval" where
  "py_getitem (PDict d) k = (case map_of d k of None \<Rightarrow> Inl KeyError | Some v \<Rightarrow> Inr v)"
| "py_getitem _ k = Inl TypeError"

text \<open>\<^verbatim>\<open>x[0]\<close>.\<close>

fun py_first :: "pyval \<Rightarrow> exc + pyval" where
  "py_first (PList []) = Inl IndexError"
| "py_first (PList (x # xs)) = Inr x"
| "py_first (PStr []) = Inl IndexError"
| "py_first (PStr (c # cs)) = Inr (PStr [c])"
| "py_first (PDict d) = Inl KeyError"
| "py_first _ = Inl TypeError"

text \<open>\<^verbatim>\<open>len(x)\<close>.\<close>

fun py_len :: "pyval \<Rightarrow> exc + nat" where
  "py_len (PList xs) = Inr (length xs)"
| "py_len (PStr s) = Inr (length s)"
| "py_len (PDict d) = Inr (length d)"
| "py_len _ = Inl TypeError"

text \<open>The elements a \<^verbatim>\<open>for\<close> loop visits.\<close>

fun py_iter :: "pyval \<Rightarrow> exc + pyval list" where
  "py_iter (PList xs) = Inr xs"
| "py_iter (PStr s) = Inr (map (\<lambda>c. PStr [c]) s)"
| "py_iter (PDict d) = Inr (map (\<lambda>p. PStr (fst p)) d)"
| "py_iter _ = Inl TypeError"

text \<open>\<^verbatim>\<open>d[k] = v\<close> is \<^const>\<open>AList.update\<close>; \<^verbatim>\<open>dict(a, **b)\<close> copies
  \<open>a\<close> and stores every item of \<open>b\<close> in the copy.\<close>

definition dict_merge :: "pydict \<Rightarrow> pydict \<Rightarrow> pydict" where
  "dict_merge a b = fold (\<lambda>p d. AList.update (fst p) (snd p) d) b a"

section \<open>How a run ends\<close>

text \<open>
  \<^verbatim>\<open>module.exit_json\<close> and \<^verbatim>\<open>module.fail_json\<close> end the process (they
  raise \<^verbatim>\<open>SystemExit\<close>, which \<^verbatim>\<open>except Exception\<close> does not catch);
  an exception outside every \<^verbatim>\<open>try\<close> ends it with a traceback. A message is
  kept as its format string and the arguments of \<^verbatim>\<open>%\<close>.
\<close>

datatype arg = Val pyval | Exn exc

datatype msg = Fmt string "arg list"

datatype outcome =
    ExitJson bool "msg option"
  | FailJson msg
  | Uncaught exc

section \<open>The step normalizer\<close>

definition scenario_step_optional_properties_list :: "string list" where
  "scenario_step_optional_properties_list = [''posts'', ''required'', ''status_codes'', ''timeout'']"

definition web_scenario_optional_properties_list :: "string list" where
  "web_scenario_optional_properties_list =
     [''agent'', ''authentication'', ''delay'', ''http_password'', ''http_user'', ''macros'', ''status'']"

definition get_value_by_key :: "pyval \<Rightarrow> string \<Rightarrow> exc + pyval" where
  "get_value_by_key dict_obj key =
     (case py_contains dict_obj key of
        Inl e \<Rightarrow> Inl e
      | Inr True \<Rightarrow> py_getitem dict_obj key
      | Inr False \<Rightarrow> Inr PNone)"

definition name_required :: msg where
  "name_required = Fmt ''The \"name\" property in scenario steps is required and not null.'' []"

definition url_required :: msg where
  "url_required = Fmt ''The \"url\" property in scenario steps is required and not null.'' []"

definition no_required :: msg where
  "no_required = Fmt ''The \"no\" property in scenario steps is required and not null.'' []"

definition steps_required :: msg where
  "steps_required = Fmt ''The \"steps\" property in scenario is required and not null.'' []"

text \<open>
  One of the three tests of \<^verbatim>\<open>get_steps\<close>:
  \<^verbatim>\<open>if key in web_check_step and web_check_step[key]: v = web_check_step[key]
  else: fail_json(msg)\<close>.
\<close>

definition required_property :: "pyval \<Rightarrow> string \<Rightarrow> msg \<Rightarrow> outcome + pyval" where
  "required_property web_check_step key m =
     (case py_contains web_check_step key of
        Inl e \<Rightarrow> Inl (Uncaught e)
      | Inr False \<Rightarrow> Inl (FailJson m)
      | Inr True \<Rightarrow>
          (case py_getitem web_check_step key of
             Inl e \<Rightarrow> Inl (Uncaught e)
           | Inr v \<Rightarrow> if truthy v then Inr v else Inl (FailJson m)))"

text \<open>The loop over the optional properties, with the dictionary it fills.\<close>

fun optional_properties :: "pyval \<Rightarrow> string list \<Rightarrow> pydict \<Rightarrow> exc + pydict" where
  "optional_properties obj [] acc = Inr acc"
| "optional_properties obj (k # ks) acc =
     (case get_value_by_key obj k of
        Inl e \<Rightarrow> Inl e
      | Inr v \<Rightarrow> optional_properties obj ks (if v \<noteq> PNone then AList.update k v acc else acc))"

text \<open>The body of the loop of \<^verbatim>\<open>get_steps\<close> for one entry.\<close>

definition get_step :: "pyval \<Rightarrow> outcome + pydict" where
  "get_step web_check_step =
     (case required_property web_check_step ''name'' name_required of
        Inl out \<Rightarrow> Inl out
      | Inr name \<Rightarrow>
     (case required_property web_check_step ''url'' url_required of
        Inl out \<Rightarrow> Inl out
      | Inr url \<Rightarrow>
     (case required_property web_check_step ''number'' no_required of
        Inl out \<Rightarrow> Inl out
      | Inr no \<Rightarrow>
     (case optional_properties web_check_step scenario_step_optional_properties_list [] of
        Inl e \<Rightarrow> Inl (Uncaught e)
      | Inr optional_step_properties \<Rightarrow>
          Inr (dict_merge [(''name'', name), (''url'', url), (''no'', no)]
                 optional_step_properties)))))"

fun get_steps_loop :: "pyval list \<Rightarrow> pydict list \<Rightarrow> outcome + pydict list" where
  "get_steps_loop [] steps = Inr steps"
| "get_steps_loop (web_check_step # rest) steps =
     (case get_step web_check_step of
        Inl out \<Rightarrow> Inl out
      | Inr step \<Rightarrow> get_steps_loop rest (steps @ [step]))"

definition get_steps :: "pyval \<Rightarrow> outcome + pydict list" where
  "get_steps web_check_steps =
     (if truthy web_check_steps then
        (case py_iter web_check_steps of
           Inl e \<Rightarrow> Inl (Uncaught e)
         | Inr entries \<Rightarrow> get_steps_loop entries [])
      else Inl (FailJson steps_required))"

section \<open>The step reconciler\<close>

text \<open>
  The inner loop of \<^verbatim>\<open>get_replace_steps\<close>: the scan of the old steps for the
  first one whose url equals the new step's. It gives the new step as it is appended
  on a match (\<^verbatim>\<open>webstepid\<close> and \<^verbatim>\<open>httptestid\<close> stored in it), or
  \<open>None\<close> when the loop ends with \<^verbatim>\<open>flag\<close> still false.
\<close>

fun match_old_step :: "pydict \<Rightarrow> pyval list \<Rightarrow> pyval \<Rightarrow> exc + pydict option" where
  "match_old_step new_webcheck_step [] httptestid = Inr None"
| "match_old_step new_webcheck_step (old_webcheck_step # rest) httptestid =
     (case py_getitem (PDict new_webcheck_step) ''url'' of
        Inl e \<Rightarrow> Inl e
      | Inr new_webcheck_step_url \<Rightarrow>
     (case py_getitem old_webcheck_step ''url'' of
        Inl e \<Rightarrow> Inl e
      | Inr old_webcheck_step_url \<Rightarrow>
          if py_eq new_webcheck_step_url old_webcheck_step_url then
            (case py_getitem old_webcheck_step ''webstepid'' of
               Inl e \<Rightarrow> Inl e
             | Inr webstepid \<Rightarrow>
                 Inr (Some (AList.update ''httptestid'' httptestid
                              (AList.update ''webstepid'' webstepid new_webcheck_step))))
          else match_old_step new_webcheck_step rest httptestid))"

text \<open>The body of the outer loop for one new step.\<close>

definition replace_step :: "pyval \<Rightarrow> pydict \<Rightarrow> pyval \<Rightarrow> exc + pydict" where
  "replace_step old_webcheck_steps new_webcheck_step httptestid =
     (case py_iter old_webcheck_steps of
        Inl e \<Rightarrow> Inl e
      | Inr olds \<Rightarrow>
          (case match_old_step new_webcheck_step olds httptestid of
             Inl e \<Rightarrow> Inl e
           | Inr (Some step) \<Rightarrow> Inr step
           | Inr None \<Rightarrow> Inr (AList.update ''httptestid'' httptestid new_webcheck_step)))"

fun replace_steps_loop :: "pyval \<Rightarrow> pydict list \<Rightarrow> pyval \<Rightarrow> pydict list \<Rightarrow> exc + pydict list" where
  "replace_steps_loop old_webcheck_steps [] httptestid relace_webcheck_steps =
     Inr relace_webcheck_steps"
| "replace_steps_loop old_webcheck_steps (new_webcheck_step # rest) httptestid relace_webcheck_steps =
     (case replace_step old_webcheck_steps new_webcheck_step httptestid of
        Inl e \<Rightarrow> Inl e
      | Inr step \<Rightarrow>
          replace_steps_loop old_webcheck_steps rest httptestid (relace_webcheck_steps @ [step]))"

definition get_replace_steps :: "pyval \<Rightarrow> pydict list \<Rightarrow> pyval \<Rightarrow> exc + pydict list" where
  "get_replace_steps old_webcheck_steps new_webcheck_steps httptestid =
     (if new_webcheck_steps \<noteq> [] then
        replace_steps_loop old_webcheck_steps new_webcheck_steps httptestid []
      else Inr [])"

text \<open>
  The choice of \<^verbatim>\<open>old_steps\<close> in \<^verbatim>\<open>get_web_check_params\<close>: a list as it
  is, the values of a dictionary, \<^verbatim>\<open>None\<close> for anything else.
\<close>

fun old_steps_of :: "pyval \<Rightarrow> pyval" where
  "old_steps_of (PList xs) = PList xs"
| "old_steps_of (PDict d) = PList (map snd d)"
| "old_steps_of _ = PNone"

definition get_web_check_params ::
  "pyval \<Rightarrow> pyval \<Rightarrow> pyval \<Rightarrow> pyval \<Rightarrow> pydict \<Rightarrow> pyval \<Rightarrow> pyval \<Rightarrow> outcome + pydict" where
  "get_web_check_params web_check_name host_id application_id web_check_steps
       optional_scenario_values web_check_obj httptestid =
     (case get_steps web_check_steps of
        Inl out \<Rightarrow> Inl out
      | Inr steps \<Rightarrow>
     (case (if truthy httptestid then
              (case py_getitem web_check_obj ''steps'' of
                 Inl e \<Rightarrow> Inl e
               | Inr remote_steps \<Rightarrow>
                   if truthy remote_steps
                   then get_replace_steps (old_steps_of remote_steps) steps httptestid
                   else Inr steps)
            else Inr steps) of
        Inl e \<Rightarrow> Inl (Uncaught e)
      | Inr steps' \<Rightarrow>
          Inr (dict_merge
                 ((if truthy httptestid then AList.update ''httptestid'' httptestid else id)
                    [(''name'', web_check_name), (''applicationid'', application_id),
                     (''hostid'', host_id), (''steps'', PList (map PDict steps'))])
                 optional_scenario_values)))"

section \<open>The remote client\<close>

text \<open>
  The Zabbix API client is not part of the module: it is a parameter of the model. The
  server has a state of some type \<open>'s\<close>. A \<^verbatim>\<open>get\<close> reads it, with the part of
  the request that varies as argument; \<^verbatim>\<open>create\<close>, \<^verbatim>\<open>update\<close> and
  \<^verbatim>\<open>delete\<close> may change it. Every call returns a value or raises an exception.
\<close>

record 's zapi =
  login :: "pyval \<Rightarrow> pyval \<Rightarrow> pyval \<Rightarrow> 's \<Rightarrow> exc option"
  host_get :: "pyval \<Rightarrow> 's \<Rightarrow> exc + pyval"
  application_get :: "pyval \<Rightarrow> pyval \<Rightarrow> 's \<Rightarrow> exc + pyval"
  webcheck_get :: "pyval \<Rightarrow> pyval \<Rightarrow> 's \<Rightarrow> exc + pyval"
  application_create :: "pyval \<Rightarrow> pyval \<Rightarrow> 's \<Rightarrow> (exc + pyval) \<times> 's"
  webcheck_create :: "pydict \<Rightarrow> 's \<Rightarrow> (exc + pyval) \<times> 's"
  webcheck_update :: "pydict \<Rightarrow> 's \<Rightarrow> (exc + pyval) \<times> 's"
  webcheck_delete :: "pyval \<Rightarrow> 's \<Rightarrow> (exc + pyval) \<times> 's"

text \<open>The calls a run makes are recorded, in order, beside the server's state.\<close>

datatype call =
    Login pyval pyval pyval
  | HostGet pyval
  | ApplicationGet pyval pyval
  | WebcheckGet pyval pyval
  | ApplicationCreate pyval pyval
  | WebcheckCreate pydict
  | WebcheckUpdate pydict
  | WebcheckDelete pyval

fun mutating :: "call \<Rightarrow> bool" where
  "mutating (ApplicationCreate h n) = True"
| "mutating (WebcheckCreate p) = True"
| "mutating (WebcheckUpdate p) = True"
| "mutating (WebcheckDelete i) = True"
| "mutating c = False"

type_synonym 's remote = "'s \<times> call list"

definition called :: "call \<Rightarrow> 's remote \<Rightarrow> 's remote" where
  "called c st = (fst st, snd st @ [c])"

text \<open>The \<^verbatim>\<open>AnsibleModule\<close> object: the parameters of the task and the check mode.\<close>

record module =
  server_url :: pyval
  login_user :: pyval
  login_password :: pyval
  state :: pyval
  timeout :: pyval
  web_check :: pyval
  check_mode :: bool

section \<open>The methods of \<^verbatim>\<open>WebCheck\<close>\<close>

definition get_host_id :: "'s zapi \<Rightarrow> pyval \<Rightarrow> 's remote \<Rightarrow> (outcome + pyval) \<times> 's remote" where
  "get_host_id zbx host_name st =
     (let failed = (\<lambda>e. Inl (FailJson (Fmt ''Failed to get the host %s id: %s.''
                                           [Val host_name, Exn e])))
      in ((case host_get zbx host_name (fst st) of
             Inl e \<Rightarrow> failed e
           | Inr host_list \<Rightarrow>
          (case py_len host_list of
             Inl e \<Rightarrow> failed e
           | Inr n \<Rightarrow>
               if n < 1 then Inl (FailJson (Fmt ''Host not found: %s'' [Val host_name]))
               else
                 (case py_first host_list of
                    Inl e \<Rightarrow> failed e
                  | Inr host \<Rightarrow>
                      (case py_getitem host ''hostid'' of
                         Inl e \<Rightarrow> failed e
                       | Inr host_id \<Rightarrow> Inr host_id)))),
          called (HostGet host_name) st))"

definition create_application ::
  "'s zapi \<Rightarrow> module \<Rightarrow> pyval \<Rightarrow> pyval \<Rightarrow> 's remote \<Rightarrow> (outcome + pyval) \<times> 's remote" where
  "create_application zbx m hostId applicationName st =
     (if check_mode m then (Inl (ExitJson True None), st)
      else
        (case application_create zbx hostId applicationName (fst st) of
           (r, s') \<Rightarrow>
             ((case r of
                 Inl e \<Rightarrow> Inl (FailJson (Fmt ''Failed to create Application '%s': %s''
                                            [Val applicationName, Exn e]))
               | Inr applicationids \<Rightarrow> Inr applicationids),
              (s', snd st @ [ApplicationCreate hostId applicationName]))))"

definition get_application_id ::
  "'s zapi \<Rightarrow> module \<Rightarrow> pyval \<Rightarrow> pyval \<Rightarrow> 's remote \<Rightarrow> (outcome + pyval) \<times> 's remote" where
  "get_application_id zbx m host_id application_name st =
     (let failed = (\<lambda>e. Inl (FailJson (Fmt ''Failed to get the application '%s' id: %s.''
                                           [Val application_name, Exn e])));
          st1 = called (ApplicationGet host_id application_name) st
      in (case application_get zbx host_id application_name (fst st) of
            Inl e \<Rightarrow> (failed e, st1)
          | Inr application_list \<Rightarrow>
         (case py_len application_list of
            Inl e \<Rightarrow> (failed e, st1)
          | Inr n \<Rightarrow>
              if n < 1 then
                (case create_application zbx m host_id application_name st1 of
                   (Inl out, st2) \<Rightarrow> (Inl out, st2)
                 | (Inr applicationids, st2) \<Rightarrow>
                     ((case py_len applicationids of
                         Inl e \<Rightarrow> failed e
                       | Inr k \<Rightarrow>
                           if k > 0 then
                             (case py_getitem applicationids ''applicationids'' of
                                Inl e \<Rightarrow> failed e
                              | Inr ids \<Rightarrow>
                                  (case py_first ids of
                                     Inl e \<Rightarrow> failed e
                                   | Inr application_id \<Rightarrow> Inr application_id))
                           else Inr PNone),
                      st2))
              else
                ((case py_first application_list of
                    Inl e \<Rightarrow> failed e
                  | Inr application \<Rightarrow>
                      (case py_getitem application ''applicationid'' of
                         Inl e \<Rightarrow> failed e
                       | Inr application_id \<Rightarrow> Inr application_id)),
                 st1))))"

definition get_web_check ::
  "'s zapi \<Rightarrow> pyval \<Rightarrow> pyval \<Rightarrow> 's remote \<Rightarrow> (outcome + pyval) \<times> 's remote" where
  "get_web_check zbx web_check_name host_id st =
     (let failed = (\<lambda>e. Inl (FailJson (Fmt ''Failed to get WebCheck %s: %s''
                                           [Val web_check_name, Exn e])))
      in ((case webcheck_get zbx web_check_name host_id (fst st) of
             Inl e \<Rightarrow> failed e
           | Inr web_check_list \<Rightarrow>
          (case py_len web_check_list of
             Inl e \<Rightarrow> failed e
           | Inr n \<Rightarrow>
               if n > 0 then
                 (case py_first web_check_list of
                    Inl e \<Rightarrow> failed e
                  | Inr web_check_obj \<Rightarrow> Inr web_check_obj)
               else Inr PNone)),
          called (WebcheckGet web_check_name host_id) st))"

definition create_web_check ::
  "'s zapi \<Rightarrow> module \<Rightarrow> pyval \<Rightarrow> pyval \<Rightarrow> pyval \<Rightarrow> pyval \<Rightarrow> pydict \<Rightarrow> 's remote
     \<Rightarrow> outcome \<times> 's remote" where
  "create_web_check zbx m web_check_name host_id application_id web_check_steps
       scenario_optional_properties st =
     (case get_web_check_params web_check_name host_id application_id web_check_steps
             scenario_optional_properties PNone PNone of
        Inl out \<Rightarrow> (out, st)
      | Inr web_check_params \<Rightarrow>
          if check_mode m then (ExitJson True None, st)
          else
            (case webcheck_create zbx web_check_params (fst st) of
               (r, s') \<Rightarrow>
                 ((case r of
                     Inl e \<Rightarrow> FailJson (Fmt ''Failed to create WebCheck %s: %s''
                                          [Val web_check_name, Exn e])
                   | Inr a \<Rightarrow> ExitJson True (Some (Fmt ''Successfully added WebCheck %s ''
                                                     [Val web_check_name]))),
                  (s', snd st @ [WebcheckCreate web_check_params]))))"

definition update_web_check ::
  "'s zapi \<Rightarrow> module \<Rightarrow> pyval \<Rightarrow> pyval \<Rightarrow> pyval \<Rightarrow> pyval \<Rightarrow> pyval \<Rightarrow> pydict \<Rightarrow> 's remote
     \<Rightarrow> outcome \<times> 's remote" where
  "update_web_check zbx m web_check_obj web_check_name host_id application_id web_check_steps
       scenario_optional_properties st =
     (case py_getitem web_check_obj ''httptestid'' of
        Inl e \<Rightarrow> (Uncaught e, st)
      | Inr httptestid \<Rightarrow>
     (case get_web_check_params web_check_name host_id application_id web_check_steps
             scenario_optional_properties web_check_obj httptestid of
        Inl out \<Rightarrow> (out, st)
      | Inr web_check_params \<Rightarrow>
          if check_mode m then (ExitJson True None, st)
          else
            (case webcheck_update zbx web_check_params (fst st) of
               (r, s') \<Rightarrow>
                 ((case r of
                     Inl e \<Rightarrow> FailJson (Fmt ''Failed to updated WebCheck %s: %s''
                                          [Val (PDict web_check_params), Exn e])
                   | Inr a \<Rightarrow> ExitJson True (Some (Fmt ''Successfully updated WebCheck %s ''
                                                     [Val (PDict web_check_params)]))),
                  (s', snd st @ [WebcheckUpdate web_check_params])))))"

definition delete_web_check ::
  "'s zapi \<Rightarrow> module \<Rightarrow> pyval \<Rightarrow> 's remote \<Rightarrow> outcome \<times> 's remote" where
  "delete_web_check zbx m webCheckObj st =
     (case py_getitem webCheckObj ''httptestid'' of
        Inl e \<Rightarrow> (Uncaught e, st)
      | Inr webCheckId \<Rightarrow>
     (case py_getitem webCheckObj ''name'' of
        Inl e \<Rightarrow> (Uncaught e, st)
      | Inr webCheckName \<Rightarrow>
          if check_mode m then (ExitJson True None, st)
          else
            (case webcheck_delete zbx webCheckId (fst st) of
               (r, s') \<Rightarrow>
                 ((case r of
                     Inl e \<Rightarrow> FailJson (Fmt ''Failed to delete WebCheck %s: %s''
                                          [Val webCheckName, Exn e])
                   | Inr a \<Rightarrow> ExitJson True (Some (Fmt ''Successfully deleted WebCheck %s ''
                                                     [Val webCheckName]))),
                  (s', snd st @ [WebcheckDelete webCheckId])))))"

section \<open>The entry point\<close>

definition web_check_name_required :: msg where
  "web_check_name_required = Fmt ''The \"web_check_name\" property is required and not null.'' []"

definition does_not_exist :: "pyval \<Rightarrow> msg" where
  "does_not_exist web_check_name = Fmt ''WebCheck %s does not exist'' [Val web_check_name]"

text \<open>The \<^verbatim>\<open>else\<close> branch of \<^verbatim>\<open>main\<close> (the state is not \<^verbatim>\<open>absent\<close>).\<close>

definition main_present ::
  "'s zapi \<Rightarrow> module \<Rightarrow> pyval \<Rightarrow> pyval \<Rightarrow> pyval \<Rightarrow> 's remote \<Rightarrow> outcome \<times> 's remote" where
  "main_present zbx m web_check_name host_name web_check_obj st =
     (case get_value_by_key (web_check m) ''application_name'' of
        Inl e \<Rightarrow> (Uncaught e, st)
      | Inr application_name \<Rightarrow>
          if \<not> truthy application_name
          then (FailJson (Fmt ''The \"application_name\" property is required.'' []), st)
          else
     (case get_host_id zbx host_name st of
        (Inl out, st1) \<Rightarrow> (out, st1)
      | (Inr host_id, st1) \<Rightarrow>
     (case get_application_id zbx m host_id application_name st1 of
        (Inl out, st2) \<Rightarrow> (out, st2)
      | (Inr application_id, st2) \<Rightarrow>
     (case get_value_by_key (web_check m) ''steps'' of
        Inl e \<Rightarrow> (Uncaught e, st2)
      | Inr web_check_steps \<Rightarrow>
     (case optional_properties (web_check m) web_scenario_optional_properties_list [] of
        Inl e \<Rightarrow> (Uncaught e, st2)
      | Inr scenario_optional_properties \<Rightarrow>
          if \<not> truthy web_check_obj
          then create_web_check zbx m web_check_name host_id application_id web_check_steps
                 scenario_optional_properties st2
          else update_web_check zbx m web_check_obj web_check_name host_id application_id
                 web_check_steps scenario_optional_properties st2)))))"

text \<open>\<^verbatim>\<open>main\<close>; \<open>has_zabbix_api\<close> is the global \<^verbatim>\<open>HAS_ZABBIX_API\<close>.\<close>

definition main :: "bool \<Rightarrow> 's zapi \<Rightarrow> module \<Rightarrow> 's remote \<Rightarrow> outcome \<times> 's remote" where
  "main has_zabbix_api zbx m st =
     (if \<not> has_zabbix_api
      then (FailJson (Fmt ''Missing requried zabbix-api module (check docs or install with: pip install zabbix-api)'' []), st)
      else
     (case py_contains (web_check m) ''web_check_name'' of
        Inl e \<Rightarrow> (Uncaught e, st)
      | Inr False \<Rightarrow> (FailJson web_check_name_required, st)
      | Inr True \<Rightarrow>
     (case py_getitem (web_check m) ''web_check_name'' of
        Inl e \<Rightarrow> (Uncaught e, st)
      | Inr web_check_name \<Rightarrow>
     (let st0 = called (Login (server_url m) (login_user m) (login_password m)) st in
      case login zbx (server_url m) (login_user m) (login_password m) (fst st) of
        Some e \<Rightarrow> (FailJson (Fmt ''Failed to connect to Zabbix server: %s'' [Exn e]), st0)
      | None \<Rightarrow>
     (case get_value_by_key (web_check m) ''host_name'' of
        Inl e \<Rightarrow> (Uncaught e, st0)
      | Inr host_name \<Rightarrow>
          if \<not> truthy host_name
          then (FailJson (Fmt ''The \"host_name\" property is required.'' []), st0)
          else
     (case get_host_id zbx host_name st0 of
        (Inl out, st1) \<Rightarrow> (out, st1)
      | (Inr host_id, st1) \<Rightarrow>
     (case get_web_check zbx web_check_name host_id st1 of
        (Inl out, st2) \<Rightarrow> (out, st2)
      | (Inr web_check_obj, st2) \<Rightarrow>
          if py_eq (state m) (PStr ''absent'') then
            (if \<not> truthy web_check_obj
             then (ExitJson False (Some (does_not_exist web_check_name)), st2)
             else delete_web_check zbx m web_check_obj st2)
          else main_present zbx m web_check_name host_name web_check_obj st2)))))))"

section \<open>An in-memory client\<close>

text \<open>
  A small server kept in memory, on which the model is run at concrete inputs: hosts,
  applications and web checks are lists of records, a \<^verbatim>\<open>get\<close> filters them,
  \<^verbatim>\<open>create\<close> appends a record under a fresh identifier, \<^verbatim>\<open>update\<close>
  replaces the web check with the same identifier (a step sent without
  \<^verbatim>\<open>webstepid\<close> gets a fresh one) and \<^verbatim>\<open>delete\<close> removes it.
\<close>

record server =
  hosts :: "pyval list"
  applications :: "pyval list"
  webchecks :: "pyval list"
  next_id :: int

definition has_value :: "string \<Rightarrow> pyval \<Rightarrow> pyval \<Rightarrow> bool" where
  "has_value k v r = (case py_getitem r k of Inl e \<Rightarrow> False | Inr x \<Rightarrow> py_eq x v)"

fun stored_steps :: "int \<Rightarrow> pyval list \<Rightarrow> pyval list" where
  "stored_steps n [] = []"
| "stored_steps n (PDict d # rest) =
     (if ''webstepid'' \<in> set (map fst d) then PDict d
      else PDict (AList.update ''webstepid'' (PInt n) d)) # stored_steps (n + 1) rest"
| "stored_steps n (x # rest) = x # stored_steps (n + 1) rest"

definition sent_steps :: "pydict \<Rightarrow> pyval list" where
  "sent_steps params = (case map_of params ''steps'' of Some (PList steps) \<Rightarrow> steps | _ \<Rightarrow> [])"

definition stored_web_check :: "int \<Rightarrow> pydict \<Rightarrow> pyval" where
  "stored_web_check n params =
     PDict (AList.update ''steps'' (PList (stored_steps n (sent_steps params))) params)"

definition memory_zapi :: "server zapi" where
  "memory_zapi =
     \<lparr> login = (\<lambda>url user password s. None),
       host_get = (\<lambda>host_name s. Inr (PList (filter (has_value ''host'' host_name) (hosts s)))),
       application_get = (\<lambda>host_id name s.
          Inr (PList (filter (\<lambda>r. has_value ''hostid'' host_id r \<and> has_value ''name'' name r)
                        (applications s)))),
       webcheck_get = (\<lambda>name host_id s.
          Inr (PList (filter (\<lambda>r. has_value ''hostid'' host_id r \<and> has_value ''name'' name r)
                        (webchecks s)))),
       application_create = (\<lambda>host_id name s.
          (Inr (PDict [(''applicationids'', PList [PInt (next_id s)])]),
           s\<lparr>applications := applications s @
                 [PDict [(''applicationid'', PInt (next_id s)), (''hostid'', host_id),
                         (''name'', name)]],
              next_id := next_id s + 1\<rparr>)),
       webcheck_create = (\<lambda>params s.
          (Inr (PDict [(''httptestids'', PList [PInt (next_id s)])]),
           s\<lparr>webchecks := webchecks s @
                 [stored_web_check (next_id s + 1)
                    (AList.update ''httptestid'' (PInt (next_id s)) params)],
              next_id := next_id s + 1 + int (length (sent_steps params))\<rparr>)),
       webcheck_update = (\<lambda>params s.
          (case map_of params ''httptestid'' of
             None \<Rightarrow> (Inl (ApiError ''Invalid params.''), s)
           | Some i \<Rightarrow>
               (Inr (PDict [(''httptestids'', PList [i])]),
                s\<lparr>webchecks :=
                     map (\<lambda>r. if has_value ''httptestid'' i r
                               then stored_web_check (next_id s) params else r) (webchecks s),
                   next_id := next_id s + int (length (sent_steps params))\<rparr>))),
       webcheck_delete = (\<lambda>i s.
          (Inr (PDict [(''httptestids'', PList [i])]),
           s\<lparr>webchecks := filter (\<lambda>r. \<not> has_value ''httptestid'' i r) (webchecks s)\<rparr>)) \<rparr>"

text \<open>A server that knows one host, and a task for a web check of two steps on it.\<close>

definition one_host :: server where
  "one_host =
     \<lparr> hosts = [PDict [(''hostid'', PStr ''10084''), (''host'', PStr ''web01'')]],
       applications = [], webchecks = [], next_id = 1 \<rparr>"

definition home_entry :: pyval where
  "home_entry = PDict [(''name'', PStr ''home''), (''url'', PStr ''http://a''), (''number'', PInt 1)]"

definition login_entry :: pyval where
  "login_entry =
     PDict [(''name'', PStr ''login''), (''url'', PStr ''http://b''), (''number'', PInt 2),
            (''status_codes'', PInt 200), (''posts'', PNone)]"

definition two_steps :: pyval where
  "two_steps = PList [home_entry, login_entry]"

definition task :: "pyval \<Rightarrow> pyval \<Rightarrow> bool \<Rightarrow> module" where
  "task st wc chk =
     \<lparr> server_url = PStr ''http://monitor.example.com'', login_user = PStr ''username'',
       login_password = PStr ''password'', state = st, timeout = PInt 10,
       web_check = wc, check_mode = chk \<rparr>"

definition health_check :: pyval where
  "health_check =
     PDict [(''web_check_name'', PStr ''Health Check''), (''application_name'', PStr ''app''),
            (''host_name'', PStr ''web01''), (''agent'', PStr ''zabbix web check''),
            (''steps'', two_steps)]"

section \<open>The vocabulary of the properties\<close>

subsection \<open>Entries and normalized steps\<close>

text \<open>
  An entry of the raw step list is expected to be a dictionary. \<open>lookup\<close> is the
  value under a key, if the value is a dictionary with that key. An entry \<^emph>\<open>has a
  non-empty\<close> property when it has the key with a value that Python takes for true, and
  \<^emph>\<open>has the required properties\<close> when this holds for \<^verbatim>\<open>name\<close>, \<^verbatim>\<open>url\<close>
  and \<^verbatim>\<open>number\<close>. The validation errors are the four messages of
  \<^verbatim>\<open>get_steps\<close>.
\<close>

fun is_dict :: "pyval \<Rightarrow> bool" where
  "is_dict (PDict d) = True"
| "is_dict v = False"

definition lookup :: "pyval \<Rightarrow> string \<Rightarrow> pyval option" where
  "lookup v k = (case py_getitem v k of Inl e \<Rightarrow> None | Inr x \<Rightarrow> Some x)"

definition has_nonempty :: "pyval \<Rightarrow> string \<Rightarrow> bool" where
  "has_nonempty v k = (case lookup v k of None \<Rightarrow> False | Some x \<Rightarrow> truthy x)"

definition has_required :: "pyval \<Rightarrow> bool" where
  "has_required e = (has_nonempty e ''name'' \<and> has_nonempty e ''url'' \<and> has_nonempty e ''number'')"

definition validation_errors :: "msg list" where
  "validation_errors = [steps_required, name_required, url_required, no_required]"

text \<open>
  A step is the normalized form of an entry when it has the entry's \<^verbatim>\<open>name\<close> and
  \<^verbatim>\<open>url\<close>, the entry's \<^verbatim>\<open>number\<close> under \<^verbatim>\<open>no\<close>, each optional
  property exactly when the entry has it with a value other than \<^verbatim>\<open>None\<close>
  (\<open>copied\<close>), and no other key.
\<close>

definition copied :: "pyval \<Rightarrow> string \<Rightarrow> pyval option" where
  "copied e k = (case lookup e k of None \<Rightarrow> None | Some v \<Rightarrow> if v = PNone then None else Some v)"

definition normalized :: "pyval \<Rightarrow> pydict \<Rightarrow> bool" where
  "normalized e step =
     (map_of step ''name'' = lookup e ''name'' \<and>
      map_of step ''url'' = lookup e ''url'' \<and>
      map_of step ''no'' = lookup e ''number'' \<and>
      list_all (\<lambda>k. map_of step k = copied e k) scenario_step_optional_properties_list \<and>
      set (map fst step) \<subseteq> set ([''name'', ''url'', ''no''] @ scenario_step_optional_properties_list))"

subsection \<open>Remote steps and reconciled steps\<close>

text \<open>
  A remote step, as the data model has it, carries a \<^verbatim>\<open>url\<close> and a
  \<^verbatim>\<open>webstepid\<close>. A desired step is a step as the normalizer returns it: it has a
  \<^verbatim>\<open>url\<close> and no identifier yet. \<open>same_url\<close> is the test of the inner loop
  of \<^verbatim>\<open>get_replace_steps\<close>, and \<open>reconciled\<close> is the step the properties
  expect for a desired step: the parent identifier attached, and the identifier of the
  first remote step with the same url, if there is one. In \<open>unique_match\<close> no
  desired step has the url of two different remote steps.
\<close>

definition remote_step :: "pyval \<Rightarrow> bool" where
  "remote_step old = (lookup old ''url'' \<noteq> None \<and> lookup old ''webstepid'' \<noteq> None)"

definition desired_step :: "pydict \<Rightarrow> bool" where
  "desired_step step =
     (map_of step ''url'' \<noteq> None \<and> map_of step ''webstepid'' = None \<and>
      map_of step ''httptestid'' = None)"

definition same_url :: "pydict \<Rightarrow> pyval \<Rightarrow> bool" where
  "same_url new old =
     (case map_of new ''url'' of
        None \<Rightarrow> False
      | Some a \<Rightarrow> (case lookup old ''url'' of None \<Rightarrow> False | Some b \<Rightarrow> py_eq a b))"

definition reconciled :: "pyval list \<Rightarrow> pyval \<Rightarrow> pydict \<Rightarrow> pydict" where
  "reconciled olds httptestid new =
     AList.update ''httptestid'' httptestid
       (case find (same_url new) olds of
          None \<Rightarrow> new
        | Some old \<Rightarrow>
            (case lookup old ''webstepid'' of
               None \<Rightarrow> new
             | Some webstepid \<Rightarrow> AList.update ''webstepid'' webstepid new))"


subsection \<open>Runs\<close>

text \<open>
  A run is \<^emph>\<open>quiet\<close> from one state of the remote to another when the server's state
  is the same, the record of calls has only grown, and none of the new calls is a
  \<^verbatim>\<open>create\<close>, an \<^verbatim>\<open>update\<close> or a \<^verbatim>\<open>delete\<close>. \<open>changed\<close> is the
  flag a run reports, if it exits normally. \<open>web_writes\<close> are the parameter sets
  of the \<^verbatim>\<open>webcheck.create\<close> and \<^verbatim>\<open>webcheck.update\<close> calls of a record, in
  order.
\<close>

definition new_calls :: "'s remote \<Rightarrow> 's remote \<Rightarrow> call list" where
  "new_calls st st' = drop (length (snd st)) (snd st')"

definition quiet :: "'s remote \<Rightarrow> 's remote \<Rightarrow> bool" where
  "quiet st st' =
     (fst st' = fst st \<and> take (length (snd st)) (snd st') = snd st \<and>
      list_all (\<lambda>c. \<not> mutating c) (new_calls st st'))"







subsection \<open>Concrete inputs\<close>

text \<open>
  Entries with a false required field and with false optional properties; the remote
  steps \<open>a\<close> and \<open>b\<close> and the desired steps \<open>b\<close> and \<open>c\<close>, raw and
  normalized; existing web checks with no steps, with their steps in a list, and with
  the same steps in a dictionary; a task for a present web check, and a web check named
  by the empty string.
\<close>

definition zero_number_entry :: pydict where
  "zero_number_entry = [(''name'', PStr ''s1''), (''url'', PStr ''http://a''), (''number'', PInt 0)]"

definition falsy_optional_entry :: pydict where
  "falsy_optional_entry =
     [(''name'', PStr ''s1''), (''url'', PStr ''http://a''), (''number'', PInt 1),
      (''required'', PInt 0), (''posts'', PStr []), (''timeout'', PNone)]"

definition remote_a_b :: "pyval list" where
  "remote_a_b =
     [PDict [(''webstepid'', PStr ''101''), (''url'', PStr ''http://a''), (''name'', PStr ''a'')],
      PDict [(''webstepid'', PStr ''102''), (''url'', PStr ''http://b''), (''name'', PStr ''b'')]]"

definition desired_b_c :: pyval where
  "desired_b_c =
     PList [PDict [(''name'', PStr ''b''), (''url'', PStr ''http://b''), (''number'', PInt 1)],
            PDict [(''name'', PStr ''c''), (''url'', PStr ''http://c''), (''number'', PInt 2)]]"

definition steps_b_c :: "pydict list" where
  "steps_b_c =
     [[(''name'', PStr ''b''), (''url'', PStr ''http://b''), (''no'', PInt 1)],
      [(''name'', PStr ''c''), (''url'', PStr ''http://c''), (''no'', PInt 2)]]"

definition stepless_web_check :: pyval where
  "stepless_web_check =
     PDict [(''httptestid'', PStr ''7''), (''name'', PStr ''Health Check''), (''steps'', PList [])]"




definition unnamed_web_check :: pyval where
  "unnamed_web_check = PDict [(''web_check_name'', PStr []), (''host_name'', PStr ''web01'')]"

section \<open>Properties of the step normalizer\<close>

text \<open>
  On a dictionary the tests of \<^verbatim>\<open>get_steps\<close> are lookups, so the result for one
  entry is read off the entry: a failure with the message of the first required
  property it lacks, or its normalized step.
\<close>

lemma lookup_dict [simp]: "lookup (PDict d) k = map_of d k"
  by (simp add: lookup_def split: option.splits)

lemma py_contains_dict: "py_contains (PDict d) k = Inr (map_of d k \<noteq> None)"
  by (simp add: map_of_eq_None_iff)

lemma required_property_dict:
  "required_property (PDict d) k m =
     (if has_nonempty (PDict d) k then Inr (the (map_of d k)) else Inl (FailJson m))"
  by (auto simp: required_property_def has_nonempty_def py_contains_dict simp del: py_contains.simps split: option.splits bool.splits)

lemma get_value_by_key_dict:
  "get_value_by_key (PDict d) k = Inr (case map_of d k of None \<Rightarrow> PNone | Some v \<Rightarrow> v)"
  by (auto simp: get_value_by_key_def py_contains_dict simp del: py_contains.simps split: option.splits bool.splits)

lemma optional_properties_dict:
  "\<exists>r. optional_properties (PDict d) ks acc = Inr r \<and>
       (\<forall>k. map_of r k = (if k \<in> set ks \<and> copied (PDict d) k \<noteq> None then copied (PDict d) k else map_of acc k)) \<and>
       fst ` set r \<subseteq> fst ` set acc \<union> set ks \<and>
       (distinct (map fst acc) \<longrightarrow> distinct (map fst r))"
proof (induction ks arbitrary: acc)
  case Nil
  then show ?case by simp
next
  case (Cons k ks)
  let ?acc' = "(if (case map_of d k of None \<Rightarrow> PNone | Some v \<Rightarrow> v) \<noteq> PNone
                then AList.update k (case map_of d k of None \<Rightarrow> PNone | Some v \<Rightarrow> v) acc else acc)"
  from Cons.IH[of ?acc'] obtain r where
    r: "optional_properties (PDict d) ks ?acc' = Inr r"
       "\<forall>k'. map_of r k' = (if k' \<in> set ks \<and> copied (PDict d) k' \<noteq> None then copied (PDict d) k' else map_of ?acc' k')"
       "fst ` set r \<subseteq> fst ` set ?acc' \<union> set ks"
       "distinct (map fst ?acc') \<longrightarrow> distinct (map fst r)"
    by blast
  have "optional_properties (PDict d) (k # ks) acc = Inr r"
    using r(1) by (simp add: get_value_by_key_dict)
  moreover have "\<forall>k'. map_of r k' = (if k' \<in> set (k # ks) \<and> copied (PDict d) k' \<noteq> None then copied (PDict d) k' else map_of acc k')"
    using r(2) by (auto simp: copied_def update_conv' split: option.splits)
  moreover have "fst ` set r \<subseteq> fst ` set acc \<union> set (k # ks)"
    using r(3) by (auto simp: dom_update split: if_splits)
  moreover have "distinct (map fst acc) \<longrightarrow> distinct (map fst r)"
    using r(4) by (auto simp: distinct_update split: if_splits)
  ultimately show ?case by blast
qed

lemma map_of_dict_merge:
  "distinct (map fst b) \<Longrightarrow>
   map_of (dict_merge a b) k = (case map_of b k of None \<Rightarrow> map_of a k | Some v \<Rightarrow> Some v)"
  unfolding dict_merge_def
proof (induction b arbitrary: a)
  case Nil
  then show ?case by simp
next
  case (Cons p b)
  obtain k' v where p: "p = (k', v)" by (cases p)
  have k': "map_of b k' = None"
    using Cons.prems by (simp add: p map_of_eq_None_iff)
  have d: "distinct (map fst b)" using Cons.prems by simp
  show ?case
    using Cons.IH[OF d, of "AList.update k' v a"] k'
    by (simp add: p update_conv split: option.splits)
qed

lemma keys_dict_merge: "fst ` set (dict_merge a b) = fst ` set a \<union> fst ` set b"
  unfolding dict_merge_def
  by (induction b arbitrary: a) (auto simp: dom_update)


lemma get_step_dict_fail:
  assumes "\<not> has_required (PDict d)"
  shows "\<exists>m\<in>set validation_errors. get_step (PDict d) = Inl (FailJson m)"
proof -
  have "get_step (PDict d) = Inl (FailJson name_required) \<or>
        get_step (PDict d) = Inl (FailJson url_required) \<or>
        get_step (PDict d) = Inl (FailJson no_required)"
    using assms unfolding get_step_def has_required_def
    by (simp add: required_property_dict)
  then show ?thesis
    unfolding validation_errors_def by auto
qed


lemma get_step_dict_ok:
  assumes "has_required (PDict d)"
  shows "\<exists>step. get_step (PDict d) = Inr step \<and> normalized (PDict d) step"
proof -
  let ?ks = scenario_step_optional_properties_list
  obtain r where r: "optional_properties (PDict d) ?ks [] = Inr r"
    and look: "\<And>k. map_of r k = (if k \<in> set ?ks \<and> copied (PDict d) k \<noteq> None then copied (PDict d) k else None)"
    and rkeys: "fst ` set r \<subseteq> set ?ks"
    and dr: "distinct (map fst r)"
    using optional_properties_dict[of d ?ks "[]"] by auto
  let ?base = "[(''name'', the (map_of d ''name'')), (''url'', the (map_of d ''url'')), (''no'', the (map_of d ''number''))]"
  let ?step = "dict_merge ?base r"
  have g: "get_step (PDict d) = Inr ?step"
    using assms r by (simp add: get_step_def required_property_dict has_required_def)
  have m: "\<And>k. map_of ?step k = (case map_of r k of None \<Rightarrow> map_of ?base k | Some v \<Rightarrow> Some v)"
    using dr by (rule map_of_dict_merge)
  have notin: "map_of r ''name'' = None" "map_of r ''url'' = None" "map_of r ''no'' = None"
    by (simp_all add: look scenario_step_optional_properties_list_def)
  have req: "map_of d ''name'' \<noteq> None" "map_of d ''url'' \<noteq> None" "map_of d ''number'' \<noteq> None"
    using assms by (auto simp: has_required_def has_nonempty_def split: option.splits)
  have n1: "map_of ?step ''name'' = lookup (PDict d) ''name''"
    using req(1) by (simp add: m notin)
  have n2: "map_of ?step ''url'' = lookup (PDict d) ''url''"
    using req(2) by (simp add: m notin)
  have n3: "map_of ?step ''no'' = lookup (PDict d) ''number''"
    using req(3) by (simp add: m notin)
  have opt: "map_of ?step k = copied (PDict d) k" if "k \<in> set ?ks" for k
  proof (cases "copied (PDict d) k")
    case None
    have "k \<noteq> ''name''" "k \<noteq> ''url''" "k \<noteq> ''no''"
      using that by (auto simp: scenario_step_optional_properties_list_def)
    then show ?thesis using None by (simp add: m look)
  next
    case (Some v)
    then show ?thesis using that by (simp add: m look)
  qed
  have keys: "set (map fst ?step) \<subseteq> set ([''name'', ''url'', ''no''] @ ?ks)"
    using rkeys keys_dict_merge[of ?base r] by auto
  have "normalized (PDict d) ?step"
    unfolding normalized_def list_all_iff
    using n1 n2 n3 opt keys by blast
  with g show ?thesis by blast
qed


lemma get_step_dict_uncaught: "get_step (PDict d) \<noteq> Inl (Uncaught e)"
proof (cases "has_required (PDict d)")
  case True
  then show ?thesis using get_step_dict_ok[of d] by auto
next
  case False
  then show ?thesis using get_step_dict_fail[of d] by auto
qed

text \<open>The loop over the entries stops at the first entry that fails.\<close>

lemma get_steps_loop_acc:
  "get_steps_loop es acc = (case get_steps_loop es [] of Inl out \<Rightarrow> Inl out | Inr r \<Rightarrow> Inr (acc @ r))"
proof (induction es arbitrary: acc)
  case Nil
  then show ?case by simp
next
  case (Cons e es)
  show ?case
  proof (cases "get_step e")
    case (Inl out)
    then show ?thesis by simp
  next
    case (Inr step)
    then show ?thesis
      using Cons.IH[of "acc @ [step]"] Cons.IH[of "[step]"]
      by (simp split: sum.splits)
  qed
qed

lemma get_steps_loop_Cons:
  "get_steps_loop (e # es) [] =
     (case get_step e of
        Inl out \<Rightarrow> Inl out
      | Inr step \<Rightarrow> (case get_steps_loop es [] of Inl out \<Rightarrow> Inl out | Inr r \<Rightarrow> Inr (step # r)))"
  using get_steps_loop_acc[of es "[the_step]" for the_step]
  by (simp split: sum.splits)

lemma get_steps_loop_ok:
  "\<forall>e\<in>set es. is_dict e \<and> has_required e \<Longrightarrow>
   \<exists>steps. get_steps_loop es [] = Inr steps \<and> length steps = length es \<and>
     (\<forall>i<length es. get_step (es ! i) = Inr (steps ! i) \<and> normalized (es ! i) (steps ! i))"
proof (induction es)
  case Nil
  then show ?case by simp
next
  case (Cons e es)
  from Cons.prems obtain d where e: "e = PDict d" "has_required (PDict d)"
    by (cases e) auto
  then obtain step where step: "get_step e = Inr step" "normalized e step"
    using get_step_dict_ok[of d] by auto
  from Cons obtain steps where steps: "get_steps_loop es [] = Inr steps" "length steps = length es"
    "\<forall>i<length es. get_step (es ! i) = Inr (steps ! i) \<and> normalized (es ! i) (steps ! i)"
    by auto
  have "get_steps_loop (e # es) [] = Inr (step # steps)"
    by (simp only: get_steps_loop_Cons step steps sum.case)
  moreover have "\<forall>i<length (e # es). get_step ((e # es) ! i) = Inr ((step # steps) ! i) \<and> normalized ((e # es) ! i) ((step # steps) ! i)"
    using step steps(3) by (auto simp: nth_Cons split: nat.splits)
  ultimately show ?case using steps(2) by auto
qed

lemma get_steps_loop_fail:
  "\<forall>e\<in>set es. is_dict e \<Longrightarrow> \<exists>e\<in>set es. \<not> has_required e \<Longrightarrow>
   \<exists>m\<in>set validation_errors. get_steps_loop es [] = Inl (FailJson m)"
proof (induction es)
  case Nil
  then show ?case by simp
next
  case (Cons e es)
  from Cons.prems obtain d where e: "e = PDict d" by (cases e) auto
  show ?case
  proof (cases "has_required e")
    case False
    then obtain m where "m \<in> set validation_errors" "get_step e = Inl (FailJson m)"
      using get_step_dict_fail[of d] e by auto
    then show ?thesis by (auto simp only: get_steps_loop_Cons sum.case)
  next
    case True
    then obtain step where step: "get_step e = Inr step"
      using get_step_dict_ok[of d] e by auto
    from True Cons.prems have "\<exists>e\<in>set es. \<not> has_required e" by auto
    then obtain m where "m \<in> set validation_errors" "get_steps_loop es [] = Inl (FailJson m)"
      using Cons by auto
    then show ?thesis using step by (auto simp only: get_steps_loop_Cons sum.case)
  qed
qed

lemma get_steps_list:
  "get_steps (PList raw) = (if raw = [] then Inl (FailJson steps_required) else get_steps_loop raw [])"
  by (simp add: get_steps_def)

text \<open>
  Claim C3. For a raw step list whose entries are dictionaries, \<^verbatim>\<open>get_steps\<close>
  fails with one of its "required" messages exactly when the list is empty or absent
  (any false value) or some entry lacks a non-empty (true) \<^verbatim>\<open>name\<close>,
  \<^verbatim>\<open>url\<close> or \<^verbatim>\<open>number\<close>. Otherwise it returns one normalized step
  per entry, in the order of the entries; an optional property is in the step only if
  the entry has it with a value other than \<^verbatim>\<open>None\<close>, and nothing is
  defaulted.
\<close>

theorem get_steps_contract:
  assumes "\<forall>e\<in>set raw. is_dict e"
  shows "(\<forall>v. \<not> truthy v \<longrightarrow> get_steps v = Inl (FailJson steps_required)) \<and>
         ((\<exists>m\<in>set validation_errors. get_steps (PList raw) = Inl (FailJson m)) \<longleftrightarrow>
            (raw = [] \<or> (\<exists>e\<in>set raw. \<not> has_required e))) \<and>
         (raw \<noteq> [] \<and> (\<forall>e\<in>set raw. has_required e) \<longrightarrow>
            (\<exists>steps. get_steps (PList raw) = Inr steps \<and> length steps = length raw \<and>
               (\<forall>i<length raw. normalized (raw ! i) (steps ! i))))"
proof (intro conjI)
  show "\<forall>v. \<not> truthy v \<longrightarrow> get_steps v = Inl (FailJson steps_required)"
    by (simp add: get_steps_def)
next
  have ok: "\<exists>steps. get_steps (PList raw) = Inr steps \<and> length steps = length raw \<and>
               (\<forall>i<length raw. normalized (raw ! i) (steps ! i))"
    if "raw \<noteq> []" "\<forall>e\<in>set raw. has_required e"
  proof -
    from that assms have "\<forall>e\<in>set raw. is_dict e \<and> has_required e" by simp
    from get_steps_loop_ok[OF this] that(1) show ?thesis
      by (auto simp: get_steps_list)
  qed
  then show "raw \<noteq> [] \<and> (\<forall>e\<in>set raw. has_required e) \<longrightarrow>
            (\<exists>steps. get_steps (PList raw) = Inr steps \<and> length steps = length raw \<and>
               (\<forall>i<length raw. normalized (raw ! i) (steps ! i)))"
    by blast
  show "(\<exists>m\<in>set validation_errors. get_steps (PList raw) = Inl (FailJson m)) \<longleftrightarrow>
            (raw = [] \<or> (\<exists>e\<in>set raw. \<not> has_required e))"
  proof
    assume f: "\<exists>m\<in>set validation_errors. get_steps (PList raw) = Inl (FailJson m)"
    show "raw = [] \<or> (\<exists>e\<in>set raw. \<not> has_required e)"
    proof (rule ccontr)
      assume "\<not> (raw = [] \<or> (\<exists>e\<in>set raw. \<not> has_required e))"
      then have "raw \<noteq> []" "\<forall>e\<in>set raw. has_required e" by auto
      from ok[OF this] f show False by auto
    qed
  next
    assume "raw = [] \<or> (\<exists>e\<in>set raw. \<not> has_required e)"
    then show "\<exists>m\<in>set validation_errors. get_steps (PList raw) = Inl (FailJson m)"
    proof
      assume "raw = []"
      then show ?thesis by (simp add: get_steps_list validation_errors_def)
    next
      assume b: "\<exists>e\<in>set raw. \<not> has_required e"
      then have "raw \<noteq> []" by auto
      with get_steps_loop_fail[OF assms b] show ?thesis
        by (simp add: get_steps_list)
    qed
  qed
qed

theorem get_steps_contract_witness:
  "list_all is_dict [home_entry, login_entry] \<and>
   (\<exists>steps. get_steps two_steps = Inr steps \<and> length steps = 2 \<and>
      normalized home_entry (steps ! 0) \<and> normalized login_entry (steps ! 1)) \<and>
   (\<exists>m. get_steps (PList [PDict [(''name'', PStr ''s1''), (''url'', PStr []), (''number'', PInt 1)]])
      = Inl (FailJson m))"
proof -
  let ?bad = "PDict [(''name'', PStr ''s1''), (''url'', PStr []), (''number'', PInt 1)]"
  have d: "\<forall>e\<in>set [home_entry, login_entry]. is_dict e"
    by (simp add: home_entry_def login_entry_def)
  have r: "has_required home_entry" "has_required login_entry"
    by (simp_all add: has_required_def has_nonempty_def home_entry_def login_entry_def)
  have b: "\<forall>e\<in>set [?bad]. is_dict e" "\<not> has_required ?bad"
    by (simp_all add: has_required_def has_nonempty_def)
  from get_steps_contract[OF d] r
  obtain steps where "get_steps two_steps = Inr steps" "length steps = 2"
    "\<forall>i<2. normalized ([home_entry, login_entry] ! i) (steps ! i)"
    by (auto simp: two_steps_def)
  moreover from this(3)[rule_format, of 0] this(3)[rule_format, of 1]
  have "normalized home_entry (steps ! 0)" "normalized login_entry (steps ! 1)"
    by simp_all
  moreover from get_steps_contract[OF b(1)] b(2)
  have "\<exists>m. get_steps (PList [?bad]) = Inl (FailJson m)" by auto
  ultimately show ?thesis using d by (auto simp: list_all_iff)
qed

lemma get_step_dict_reject:
  assumes "\<not> has_required (PDict d)"
  shows "get_step (PDict d) =
           Inl (FailJson (if \<not> has_nonempty (PDict d) ''name'' then name_required
                          else if \<not> has_nonempty (PDict d) ''url'' then url_required
                          else no_required))"
  using assms unfolding get_step_def has_required_def
  by (simp add: required_property_dict)

lemma has_nonempty_delete:
  "has_nonempty (PDict (AList.delete k d)) k' = (k' \<noteq> k \<and> has_nonempty (PDict d) k')"
  by (simp add: has_nonempty_def delete_conv)

lemma get_steps_loop_cong:
  "map get_step es = map get_step es' \<Longrightarrow> get_steps_loop es acc = get_steps_loop es' acc"
proof (induction es arbitrary: es' acc)
  case Nil
  then show ?case by simp
next
  case (Cons e es)
  then obtain e' es'' where "es' = e' # es''" by (cases es') auto
  with Cons show ?case by (auto split: sum.splits)
qed

lemma get_steps_loop_nth:
  assumes "\<forall>e\<in>set es. is_dict e" and "get_steps_loop es [] = Inr steps" and "i < length es"
  shows "normalized (es ! i) (steps ! i)"
proof -
  have "\<forall>e\<in>set es. has_required e"
  proof (rule ccontr)
    assume "\<not> (\<forall>e\<in>set es. has_required e)"
    then have "\<exists>e\<in>set es. \<not> has_required e" by simp
    from get_steps_loop_fail[OF assms(1) this] assms(2) show False by auto
  qed
  with assms(1) have "\<forall>e\<in>set es. is_dict e \<and> has_required e" by simp
  from get_steps_loop_ok[OF this] assms(2,3) show ?thesis by auto
qed

text \<open>
  Claim C10. The presence tests of the normalizer are asymmetric. A required field
  (\<^verbatim>\<open>name\<close>, \<^verbatim>\<open>url\<close>, \<^verbatim>\<open>number\<close>) that is present with a
  false value (0, the empty string) is rejected as if it were missing: the result is
  the one for the entry without the field, a failure with a "required" message. An
  optional property is tested against \<^verbatim>\<open>None\<close> only: present with any
  other value, false ones included, it is copied into the normalized step; present with
  \<^verbatim>\<open>None\<close> it is left out.
\<close>

theorem get_steps_presence_tests:
  assumes "\<forall>e\<in>set raw. is_dict e" and "i < length raw" and "raw ! i = PDict d"
  shows "(\<forall>k\<in>set [''name'', ''url'', ''number'']. \<forall>v. map_of d k = Some v \<and> \<not> truthy v \<longrightarrow>
            get_steps (PList raw) = get_steps (PList (raw[i := PDict (AList.delete k d)])) \<and>
            (\<exists>m\<in>set validation_errors. get_steps (PList raw) = Inl (FailJson m))) \<and>
         (\<forall>k\<in>set scenario_step_optional_properties_list. \<forall>v steps.
            map_of d k = Some v \<and> get_steps (PList raw) = Inr steps \<longrightarrow>
            map_of (steps ! i) k = (if v = PNone then None else Some v))"
proof (intro conjI ballI allI impI)
  fix k v
  assume k: "k \<in> set [''name'', ''url'', ''number'']" and v: "map_of d k = Some v \<and> \<not> truthy v"
  have hn: "\<not> has_nonempty (PDict d) k"
    using v by (simp add: has_nonempty_def)
  then have bad: "\<not> has_required (PDict d)"
    using k by (auto simp: has_required_def)
  have bad': "\<not> has_required (PDict (AList.delete k d))"
    using k by (auto simp: has_required_def has_nonempty_delete)
  have "get_step (PDict (AList.delete k d)) = get_step (PDict d)"
    using k hn by (auto simp: get_step_dict_reject[OF bad] get_step_dict_reject[OF bad'] has_nonempty_delete)
  then have "map get_step (raw[i := PDict (AList.delete k d)]) = map get_step raw"
    using assms(2,3) by (simp add: map_update list_update_same_conv)
  then have "get_steps_loop (raw[i := PDict (AList.delete k d)]) [] = get_steps_loop raw []"
    by (rule get_steps_loop_cong)
  then show "get_steps (PList raw) = get_steps (PList (raw[i := PDict (AList.delete k d)]))"
    by (simp add: get_steps_list)
  have "\<exists>e\<in>set raw. \<not> has_required e"
    using bad assms(2,3) by (metis nth_mem)
  from get_steps_loop_fail[OF assms(1) this]
  show "\<exists>m\<in>set validation_errors. get_steps (PList raw) = Inl (FailJson m)"
    by (auto simp: get_steps_list validation_errors_def)
next
  fix k v steps
  assume k: "k \<in> set scenario_step_optional_properties_list"
    and v: "map_of d k = Some v \<and> get_steps (PList raw) = Inr steps"
  then have "get_steps_loop raw [] = Inr steps"
    by (auto simp: get_steps_list split: if_splits)
  from get_steps_loop_nth[OF assms(1) this assms(2)]
  have "normalized (PDict d) (steps ! i)" by (simp add: assms(3))
  then show "map_of (steps ! i) k = (if v = PNone then None else Some v)"
    using k v by (auto simp: normalized_def list_all_iff copied_def)
qed

theorem get_steps_presence_tests_witness:
  "(\<exists>m. get_steps (PList [PDict zero_number_entry]) = Inl (FailJson m) \<and>
        get_steps (PList [PDict (AList.delete ''number'' zero_number_entry)]) = Inl (FailJson m)) \<and>
   (\<exists>steps. get_steps (PList [PDict falsy_optional_entry]) = Inr steps \<and>
      map_of (steps ! 0) ''required'' = Some (PInt 0) \<and>
      map_of (steps ! 0) ''posts'' = Some (PStr []) \<and>
      map_of (steps ! 0) ''timeout'' = None)"
proof -
  have a: "\<forall>e\<in>set [PDict zero_number_entry]. is_dict e" "(0::nat) < length [PDict zero_number_entry]"
    "[PDict zero_number_entry] ! 0 = PDict zero_number_entry"
    by simp_all
  have z: "map_of zero_number_entry ''number'' = Some (PInt 0) \<and> \<not> truthy (PInt 0)"
    by (simp add: zero_number_entry_def)
  have k: "''number'' \<in> set [''name'', ''url'', ''number'']" by simp
  have lu: "[PDict zero_number_entry][0 := PDict (AList.delete ''number'' zero_number_entry)] =
              [PDict (AList.delete ''number'' zero_number_entry)]"
    by simp
  note c = get_steps_presence_tests[OF a, THEN conjunct1, rule_format, OF k z, unfolded lu]
  have e: "get_steps (PList [PDict zero_number_entry]) =
             get_steps (PList [PDict (AList.delete ''number'' zero_number_entry)])"
    by (rule c[THEN conjunct1])
  have "\<exists>m\<in>set validation_errors. get_steps (PList [PDict zero_number_entry]) = Inl (FailJson m)"
    by (rule c[THEN conjunct2])
  then obtain m where m: "get_steps (PList [PDict zero_number_entry]) = Inl (FailJson m)"
    by blast
  have 1: "\<exists>m. get_steps (PList [PDict zero_number_entry]) = Inl (FailJson m) \<and>
        get_steps (PList [PDict (AList.delete ''number'' zero_number_entry)]) = Inl (FailJson m)"
    using m e[symmetric] by (intro exI[of _ m]) simp
  have b: "\<forall>e\<in>set [PDict falsy_optional_entry]. is_dict e" "(0::nat) < length [PDict falsy_optional_entry]"
    "[PDict falsy_optional_entry] ! 0 = PDict falsy_optional_entry"
    by simp_all
  have r: "has_required (PDict falsy_optional_entry)"
    by (simp add: has_required_def has_nonempty_def falsy_optional_entry_def)
  then have "\<forall>e\<in>set [PDict falsy_optional_entry]. is_dict e \<and> has_required e" by simp
  from get_steps_loop_ok[OF this] obtain steps where
    s: "get_steps (PList [PDict falsy_optional_entry]) = Inr steps"
    by (auto simp: get_steps_list)
  note t = get_steps_presence_tests[OF b, THEN conjunct2, rule_format]
  have "map_of (steps ! 0) ''required'' = Some (PInt 0)"
    using t[of "''required''" "PInt 0" steps] s
    by (simp add: falsy_optional_entry_def scenario_step_optional_properties_list_def)
  moreover have "map_of (steps ! 0) ''posts'' = Some (PStr [])"
    using t[of "''posts''" "PStr []" steps] s
    by (simp add: falsy_optional_entry_def scenario_step_optional_properties_list_def)
  moreover have "map_of (steps ! 0) ''timeout'' = None"
    using t[of "''timeout''" PNone steps] s
    by (simp add: falsy_optional_entry_def scenario_step_optional_properties_list_def)
  ultimately show ?thesis using 1 s by blast
qed

section \<open>Properties of the step reconciler\<close>

text \<open>
  Against remote steps that carry url and identifier the inner loop is a search for the
  first remote step with the same url, and the outer loop maps \<open>reconciled\<close> over
  the desired steps.
\<close>

lemma lookup_Some: "lookup v k = Some x \<Longrightarrow> py_getitem v k = Inr x"
  by (simp add: lookup_def split: sum.splits)


lemma match_old_step_remote:
  assumes "map_of new ''url'' = Some u" and "\<forall>old\<in>set olds. remote_step old"
  shows "match_old_step new olds httptestid =
           Inr (case find (same_url new) olds of
                  None \<Rightarrow> None
                | Some old \<Rightarrow>
                    (case lookup old ''webstepid'' of
                       None \<Rightarrow> None
                     | Some webstepid \<Rightarrow>
                         Some (AList.update ''httptestid'' httptestid
                                 (AList.update ''webstepid'' webstepid new))))"
  using assms(2)
proof (induction olds)
  case Nil
  then show ?case by simp
next
  case (Cons old olds)
  from Cons.prems obtain b w where b: "lookup old ''url'' = Some b" "lookup old ''webstepid'' = Some w"
    by (auto simp: remote_step_def)
  have s: "same_url new old = py_eq u b"
    by (simp add: same_url_def assms(1) b)
  show ?case
  proof (cases "py_eq u b")
    case True
    then show ?thesis
      by (simp add: assms(1) lookup_Some[OF b(1)] lookup_Some[OF b(2)] s b)
  next
    case False
    then show ?thesis
      using Cons by (simp add: assms(1) lookup_Some[OF b(1)] s)
  qed
qed

lemma find_remote_step:
  "\<forall>old\<in>set olds. remote_step old \<Longrightarrow> find P olds = Some old \<Longrightarrow> lookup old ''webstepid'' \<noteq> None"
  by (auto simp: find_Some_iff remote_step_def)

lemma replace_step_remote:
  assumes "map_of new ''url'' \<noteq> None" and "\<forall>old\<in>set olds. remote_step old"
  shows "replace_step (PList olds) new httptestid = Inr (reconciled olds httptestid new)"
proof -
  from assms(1) obtain u where u: "map_of new ''url'' = Some u" by auto
  show ?thesis
  proof (cases "find (same_url new) olds")
    case None
    then show ?thesis
      by (simp add: replace_step_def match_old_step_remote[OF u assms(2)] reconciled_def)
  next
    case (Some old)
    with find_remote_step[OF assms(2) Some] show ?thesis
      by (auto simp: replace_step_def match_old_step_remote[OF u assms(2)] reconciled_def)
  qed
qed

lemma replace_steps_loop_remote:
  assumes "\<forall>old\<in>set olds. remote_step old"
  shows "\<forall>new\<in>set news. map_of new ''url'' \<noteq> None \<Longrightarrow>
         replace_steps_loop (PList olds) news httptestid acc =
           Inr (acc @ map (reconciled olds httptestid) news)"
proof (induction news arbitrary: acc)
  case Nil
  then show ?case by simp
next
  case (Cons new news)
  then show ?case
    by (simp add: replace_step_remote[OF _ assms])
qed

lemma get_replace_steps_remote:
  assumes "\<forall>old\<in>set olds. remote_step old" and "\<forall>new\<in>set news. map_of new ''url'' \<noteq> None"
  shows "get_replace_steps (PList olds) news httptestid = Inr (map (reconciled olds httptestid) news)"
  using replace_steps_loop_remote[OF assms, of httptestid "[]"]
  by (simp add: get_replace_steps_def)

text \<open>Whatever \<^verbatim>\<open>get_steps\<close> returns is a list of desired steps.\<close>

lemma required_property_Inr: "required_property e k m = Inr v \<Longrightarrow> is_dict e"
  by (cases e) (auto simp: required_property_def split: sum.splits bool.splits if_splits)

lemma get_step_Inr:
  assumes "get_step e = Inr step"
  shows "is_dict e \<and> has_required e \<and> normalized e step"
proof -
  from assms obtain v where "required_property e ''name'' name_required = Inr v"
    by (auto simp: get_step_def split: sum.splits)
  then have "is_dict e" by (rule required_property_Inr)
  then obtain d where d: "e = PDict d" by (cases e) auto
  have r: "has_required (PDict d)"
  proof (rule ccontr)
    assume "\<not> has_required (PDict d)"
    from get_step_dict_fail[OF this] assms d show False by auto
  qed
  from get_step_dict_ok[OF r] assms d show ?thesis using r by auto
qed

lemma normalized_desired:
  assumes "has_required e" and "normalized e step"
  shows "desired_step step"
proof -
  have "lookup e ''url'' \<noteq> None"
    using assms(1) by (auto simp: has_required_def has_nonempty_def split: option.splits)
  then have u: "map_of step ''url'' \<noteq> None"
    using assms(2) by (simp add: normalized_def)
  have "''webstepid'' \<notin> set (map fst step)" "''httptestid'' \<notin> set (map fst step)"
    using assms(2) by (auto simp: normalized_def scenario_step_optional_properties_list_def)
  then have "map_of step ''webstepid'' = None" "map_of step ''httptestid'' = None"
    by (simp_all add: map_of_eq_None_iff)
  with u show ?thesis by (simp add: desired_step_def)
qed

lemma get_steps_loop_desired:
  "get_steps_loop es [] = Inr steps \<Longrightarrow> \<forall>step\<in>set steps. desired_step step"
proof (induction es arbitrary: steps)
  case Nil
  then show ?case by simp
next
  case (Cons e es)
  from Cons.prems[unfolded get_steps_loop_Cons]
  obtain step rest where s: "get_step e = Inr step" "get_steps_loop es [] = Inr rest"
    "steps = step # rest"
    by (auto split: sum.splits)
  from get_step_Inr[OF s(1)] have "desired_step step"
    by (auto intro: normalized_desired)
  with Cons.IH[OF s(2)] s(3) show ?case by simp
qed

lemma get_steps_desired:
  assumes "get_steps raw = Inr steps"
  shows "\<forall>step\<in>set steps. desired_step step"
proof -
  from assms obtain es where "get_steps_loop es [] = Inr steps"
    by (auto simp: get_steps_def split: if_splits sum.splits)
  then show ?thesis by (rule get_steps_loop_desired)
qed

lemma map_of_reconciled:
  assumes "desired_step new" and "\<forall>old\<in>set olds. remote_step old"
  shows "map_of (reconciled olds httptestid new) k =
           (if k = ''httptestid'' then Some httptestid
            else if k = ''webstepid''
              then (case find (same_url new) olds of None \<Rightarrow> None | Some old \<Rightarrow> lookup old ''webstepid'')
            else map_of new k)"
proof (cases "find (same_url new) olds")
  case None
  then show ?thesis using assms(1)
    by (simp add: reconciled_def update_conv desired_step_def)
next
  case (Some old)
  with find_remote_step[OF assms(2) Some] show ?thesis
    by (auto simp: reconciled_def update_conv)
qed

lemma same_url_reconciled:
  assumes "desired_step new" and "\<forall>old\<in>set olds. remote_step old"
  shows "same_url (reconciled olds httptestid new) old = same_url new old"
  by (simp add: same_url_def map_of_reconciled[OF assms])

text \<open>
  Claim C1. Reconciling the normalized desired steps against remote steps that each
  carry a \<^verbatim>\<open>url\<close> and a \<^verbatim>\<open>webstepid\<close> gives one step per desired step,
  in the order of the desired steps; each is its desired step (every other key
  unchanged) with the parent identifier under \<^verbatim>\<open>httptestid\<close>, and with the
  \<^verbatim>\<open>webstepid\<close> of the first remote step, in remote order, whose url equals
  its own, or no \<^verbatim>\<open>webstepid\<close> when no remote url equals it. A remote step
  whose url equals no desired url has the url of no step of the output.
\<close>

theorem get_replace_steps_reconciles:
  assumes "get_steps raw = Inr news" and "\<forall>old\<in>set olds. remote_step old"
  shows "\<exists>out. get_replace_steps (PList olds) news httptestid = Inr out \<and>
           length out = length news \<and>
           (\<forall>i<length news.
              (\<forall>k. k \<noteq> ''webstepid'' \<and> k \<noteq> ''httptestid'' \<longrightarrow>
                   map_of (out ! i) k = map_of (news ! i) k) \<and>
              map_of (out ! i) ''httptestid'' = Some httptestid \<and>
              map_of (out ! i) ''webstepid'' =
                (case find (same_url (news ! i)) olds of
                   None \<Rightarrow> None
                 | Some old \<Rightarrow> lookup old ''webstepid'')) \<and>
           (\<forall>old\<in>set olds. (\<forall>new\<in>set news. \<not> same_url new old) \<longrightarrow>
              (\<forall>step\<in>set out. \<not> same_url step old))"
proof -
  have d: "\<forall>new\<in>set news. desired_step new"
    using assms(1) by (rule get_steps_desired)
  then have u: "\<forall>new\<in>set news. map_of new ''url'' \<noteq> None"
    by (simp add: desired_step_def)
  let ?out = "map (reconciled olds httptestid) news"
  have g: "get_replace_steps (PList olds) news httptestid = Inr ?out"
    using assms(2) u by (rule get_replace_steps_remote)
  have n: "\<forall>i<length news.
              (\<forall>k. k \<noteq> ''webstepid'' \<and> k \<noteq> ''httptestid'' \<longrightarrow>
                   map_of (?out ! i) k = map_of (news ! i) k) \<and>
              map_of (?out ! i) ''httptestid'' = Some httptestid \<and>
              map_of (?out ! i) ''webstepid'' =
                (case find (same_url (news ! i)) olds of
                   None \<Rightarrow> None
                 | Some old \<Rightarrow> lookup old ''webstepid'')"
  proof (intro allI impI)
    fix i assume i: "i < length news"
    then have "desired_step (news ! i)" using d by simp
    from map_of_reconciled[OF this assms(2)] i
    show "(\<forall>k. k \<noteq> ''webstepid'' \<and> k \<noteq> ''httptestid'' \<longrightarrow>
                   map_of (?out ! i) k = map_of (news ! i) k) \<and>
              map_of (?out ! i) ''httptestid'' = Some httptestid \<and>
              map_of (?out ! i) ''webstepid'' =
                (case find (same_url (news ! i)) olds of
                   None \<Rightarrow> None
                 | Some old \<Rightarrow> lookup old ''webstepid'')"
      by simp
  qed
  have a: "\<forall>old\<in>set olds. (\<forall>new\<in>set news. \<not> same_url new old) \<longrightarrow>
              (\<forall>step\<in>set ?out. \<not> same_url step old)"
    using d by (auto simp: same_url_reconciled[OF _ assms(2)])
  from g n a show ?thesis by simp
qed

lemma get_steps_desired_b_c: "get_steps desired_b_c = Inr steps_b_c"
  by code_simp

theorem get_replace_steps_reconciles_witness:
  "\<exists>out. get_replace_steps (PList remote_a_b) steps_b_c (PStr ''7'') = Inr out \<and>
     length out = 2 \<and>
     map_of (out ! 0) ''url'' = Some (PStr ''http://b'') \<and>
     map_of (out ! 0) ''webstepid'' = Some (PStr ''102'') \<and>
     map_of (out ! 0) ''httptestid'' = Some (PStr ''7'') \<and>
     map_of (out ! 1) ''url'' = Some (PStr ''http://c'') \<and>
     map_of (out ! 1) ''webstepid'' = None \<and>
     map_of (out ! 1) ''httptestid'' = Some (PStr ''7'') \<and>
     \<not> same_url (out ! 0) (remote_a_b ! 0) \<and> \<not> same_url (out ! 1) (remote_a_b ! 0)"
proof -
  have r: "\<forall>old\<in>set remote_a_b. remote_step old"
    by (simp add: remote_a_b_def remote_step_def)
  from get_replace_steps_reconciles[OF get_steps_desired_b_c r, of "PStr ''7''"]
  obtain out where c: "get_replace_steps (PList remote_a_b) steps_b_c (PStr ''7'') = Inr out \<and>
           length out = length steps_b_c \<and>
           (\<forall>i<length steps_b_c.
              (\<forall>k. k \<noteq> ''webstepid'' \<and> k \<noteq> ''httptestid'' \<longrightarrow>
                   map_of (out ! i) k = map_of (steps_b_c ! i) k) \<and>
              map_of (out ! i) ''httptestid'' = Some (PStr ''7'') \<and>
              map_of (out ! i) ''webstepid'' =
                (case find (same_url (steps_b_c ! i)) remote_a_b of
                   None \<Rightarrow> None
                 | Some old \<Rightarrow> lookup old ''webstepid'')) \<and>
           (\<forall>old\<in>set remote_a_b. (\<forall>new\<in>set steps_b_c. \<not> same_url new old) \<longrightarrow>
              (\<forall>step\<in>set out. \<not> same_url step old))" ..
  note g = c[THEN conjunct1]
  note l = c[THEN conjunct2, THEN conjunct1]
  note n = c[THEN conjunct2, THEN conjunct2, THEN conjunct1, rule_format]
  note a = c[THEN conjunct2, THEN conjunct2, THEN conjunct2, rule_format]
  have l2: "length out = 2" using l by (simp add: steps_b_c_def)
  have n0: "map_of (out ! 0) ''url'' = Some (PStr ''http://b'') \<and>
            map_of (out ! 0) ''webstepid'' = Some (PStr ''102'') \<and>
            map_of (out ! 0) ''httptestid'' = Some (PStr ''7'')"
    using n[of 0] by (simp add: steps_b_c_def remote_a_b_def same_url_def)
  have n1: "map_of (out ! 1) ''url'' = Some (PStr ''http://c'') \<and>
            map_of (out ! 1) ''webstepid'' = None \<and>
            map_of (out ! 1) ''httptestid'' = Some (PStr ''7'')"
    using n[of 1] by (simp add: steps_b_c_def remote_a_b_def same_url_def)
  have m: "remote_a_b ! 0 \<in> set remote_a_b"
    "\<And>new. new \<in> set steps_b_c \<Longrightarrow> \<not> same_url new (remote_a_b ! 0)"
    by (auto simp: steps_b_c_def remote_a_b_def same_url_def)
  have o: "out ! 0 \<in> set out" "out ! 1 \<in> set out" using l2 by simp_all
  have a0: "\<not> same_url (out ! 0) (remote_a_b ! 0)" by (rule a[OF m o(1)])
  have a1: "\<not> same_url (out ! 1) (remote_a_b ! 0)" by (rule a[OF m o(2)])
  show ?thesis
    by (rule exI[of _ out]) (simp only: g l2 n0 n1 a0 a1 simp_thms)
qed

section \<open>Properties of the parameter assembly\<close>

text \<open>
  The optional scenario properties have keys of the whitelist only, so they override
  none of \<^verbatim>\<open>name\<close>, \<^verbatim>\<open>applicationid\<close>, \<^verbatim>\<open>hostid\<close>,
  \<^verbatim>\<open>steps\<close> and \<^verbatim>\<open>httptestid\<close>.
\<close>

lemma optional_properties_keys:
  "optional_properties obj ks acc = Inr r \<Longrightarrow>
     fst ` set r \<subseteq> fst ` set acc \<union> set ks \<and> (distinct (map fst acc) \<longrightarrow> distinct (map fst r))"
proof (induction ks arbitrary: acc)
  case Nil
  then show ?case by simp
next
  case (Cons k ks)
  from Cons.prems obtain v where v: "get_value_by_key obj k = Inr v"
    and r: "optional_properties obj ks (if v \<noteq> PNone then AList.update k v acc else acc) = Inr r"
    by (auto split: sum.splits)
  from Cons.IH[OF r] show ?case
    by (auto simp: dom_update distinct_update split: if_splits)
qed

lemma scenario_optional_properties:
  assumes "optional_properties obj web_scenario_optional_properties_list [] = Inr opt"
  shows "distinct (map fst opt)" and "map_of opt ''httptestid'' = None" and "map_of opt ''steps'' = None"
proof -
  from optional_properties_keys[OF assms]
  have k: "fst ` set opt \<subseteq> set web_scenario_optional_properties_list" and d: "distinct (map fst opt)"
    by simp_all
  show "distinct (map fst opt)" by (rule d)
  have "''httptestid'' \<notin> fst ` set opt" "''steps'' \<notin> fst ` set opt"
    using k by (auto simp: web_scenario_optional_properties_list_def)
  then show "map_of opt ''httptestid'' = None" and "map_of opt ''steps'' = None"
    by (simp_all add: map_of_eq_None_iff)
qed

lemma get_web_check_params_stepless:
  assumes "truthy httptestid" and "lookup web_check_obj ''steps'' = Some remote_steps"
    and "\<not> truthy remote_steps" and "get_steps web_check_steps = Inr steps"
  shows "get_web_check_params web_check_name host_id application_id web_check_steps opt
           web_check_obj httptestid =
         Inr (dict_merge
                (AList.update ''httptestid'' httptestid
                   [(''name'', web_check_name), (''applicationid'', application_id),
                    (''hostid'', host_id), (''steps'', PList (map PDict steps))])
                opt)"
  using assms by (simp add: get_web_check_params_def lookup_Some)

text \<open>
  Claim C6, as amended. When the existing web check carries no steps (its
  \<^verbatim>\<open>steps\<close> field is \<^verbatim>\<open>None\<close> or empty), \<^verbatim>\<open>get_web_check_params\<close>
  does not reconcile: the steps it sends are the normalized desired steps as they are,
  with no \<^verbatim>\<open>webstepid\<close> and no \<^verbatim>\<open>httptestid\<close>; the web check's identifier
  is in the outer parameter set only.
\<close>

theorem web_check_params_without_remote_steps:
  assumes "truthy httptestid" and "lookup web_check_obj ''steps'' = Some remote_steps"
    and "\<not> truthy remote_steps" and "get_steps web_check_steps = Inr steps"
    and "optional_properties wc web_scenario_optional_properties_list [] = Inr opt"
  shows "\<exists>params. get_web_check_params web_check_name host_id application_id web_check_steps opt
                    web_check_obj httptestid = Inr params \<and>
           map_of params ''httptestid'' = Some httptestid \<and>
           map_of params ''steps'' = Some (PList (map PDict steps)) \<and>
           (\<forall>step\<in>set steps. map_of step ''webstepid'' = None \<and> map_of step ''httptestid'' = None)"
proof -
  note o = scenario_optional_properties[OF assms(5)]
  let ?params = "dict_merge
                (AList.update ''httptestid'' httptestid
                   [(''name'', web_check_name), (''applicationid'', application_id),
                    (''hostid'', host_id), (''steps'', PList (map PDict steps))])
                opt"
  have g: "get_web_check_params web_check_name host_id application_id web_check_steps opt
                    web_check_obj httptestid = Inr ?params"
    using assms(1-4) by (rule get_web_check_params_stepless)
  have h: "map_of ?params ''httptestid'' = Some httptestid"
    by (simp add: map_of_dict_merge[OF o(1)] o(2) update_conv)
  have s: "map_of ?params ''steps'' = Some (PList (map PDict steps))"
    by (simp add: map_of_dict_merge[OF o(1)] o(3) update_conv)
  have "\<forall>step\<in>set steps. map_of step ''webstepid'' = None \<and> map_of step ''httptestid'' = None"
    using get_steps_desired[OF assms(4)] by (simp add: desired_step_def)
  with g h s show ?thesis by blast
qed

theorem web_check_params_without_remote_steps_witness:
  "\<exists>params. get_web_check_params (PStr ''Health Check'') (PStr ''10084'') (PInt 1) desired_b_c
               [(''agent'', PStr ''zabbix web check'')] stepless_web_check (PStr ''7'') = Inr params \<and>
     map_of params ''httptestid'' = Some (PStr ''7'') \<and>
     map_of params ''steps'' = Some (PList (map PDict steps_b_c)) \<and>
     list_all (\<lambda>step. map_of step ''webstepid'' = None \<and> map_of step ''httptestid'' = None) steps_b_c"
proof -
  have a: "truthy (PStr ''7'')" "lookup stepless_web_check ''steps'' = Some (PList [])"
    "\<not> truthy (PList [])"
    by (simp_all add: stepless_web_check_def)
  have o: "optional_properties health_check web_scenario_optional_properties_list []
             = Inr [(''agent'', PStr ''zabbix web check'')]"
    by code_simp
  show ?thesis
    using web_check_params_without_remote_steps[OF a get_steps_desired_b_c o,
        of "PStr ''Health Check''" "PStr ''10084''" "PInt 1"]
    by (simp add: list_all_iff)
qed

text \<open>
  The claim as first stated has every such step carry the parent identifier; for the
  web check \<open>stepless_web_check\<close> the steps sent carry none.
\<close>

theorem web_check_params_without_remote_steps_counterexample:
  "get_web_check_params (PStr ''Health Check'') (PStr ''10084'') (PInt 1) desired_b_c []
     stepless_web_check (PStr ''7'') =
   Inr [(''name'', PStr ''Health Check''), (''applicationid'', PInt 1), (''hostid'', PStr ''10084''),
        (''steps'', PList (map PDict steps_b_c)), (''httptestid'', PStr ''7'')] \<and>
   map (\<lambda>step. map_of step ''httptestid'') steps_b_c = [None, None]"
  by code_simp






section \<open>Properties of a run\<close>

text \<open>
  What each method does to the remote: the lookups record their call and leave the
  server alone, and in check mode so does everything else.
\<close>

lemma quiet_refl: "quiet st st"
  by (simp add: quiet_def new_calls_def)

lemma quiet_called: "\<not> mutating c \<Longrightarrow> quiet st (called c st)"
  by (simp add: quiet_def new_calls_def called_def)

lemma quiet_iff:
  "quiet st st' \<longleftrightarrow> fst st' = fst st \<and> (\<exists>new. snd st' = snd st @ new \<and> list_all (\<lambda>c. \<not> mutating c) new)"
proof
  assume q: "quiet st st'"
  then have "snd st' = snd st @ new_calls st st'"
    unfolding quiet_def new_calls_def by (metis append_take_drop_id)
  with q show "fst st' = fst st \<and> (\<exists>new. snd st' = snd st @ new \<and> list_all (\<lambda>c. \<not> mutating c) new)"
    unfolding quiet_def by blast
next
  assume "fst st' = fst st \<and> (\<exists>new. snd st' = snd st @ new \<and> list_all (\<lambda>c. \<not> mutating c) new)"
  then show "quiet st st'"
    by (auto simp: quiet_def new_calls_def)
qed

lemma quiet_trans: "quiet st st' \<Longrightarrow> quiet st' st'' \<Longrightarrow> quiet st st''"
  unfolding quiet_iff by auto

lemma get_host_id_snd: "snd (get_host_id zbx host_name st) = called (HostGet host_name) st"
  by (simp add: get_host_id_def Let_def)

lemma get_web_check_snd:
  "snd (get_web_check zbx web_check_name host_id st) = called (WebcheckGet web_check_name host_id) st"
  by (simp add: get_web_check_def Let_def)

lemma get_host_id_fst: "fst st' = fst st \<Longrightarrow> fst (get_host_id zbx host_name st') = fst (get_host_id zbx host_name st)"
  by (simp add: get_host_id_def Let_def)

lemma create_application_check:
  "check_mode m \<Longrightarrow> create_application zbx m hostId applicationName st = (Inl (ExitJson True None), st)"
  by (simp add: create_application_def)

lemma get_application_id_check:
  assumes "check_mode m"
  shows "snd (get_application_id zbx m host_id application_name st)
           = called (ApplicationGet host_id application_name) st"
  using assms
  by (simp add: get_application_id_def Let_def create_application_check split: sum.splits)

lemma create_web_check_check:
  assumes "check_mode m"
  shows "snd (create_web_check zbx m n h a ws opt st) = st"
  using assms by (simp add: create_web_check_def split: sum.splits)

lemma update_web_check_check:
  assumes "check_mode m"
  shows "snd (update_web_check zbx m obj n h a ws opt st) = st"
  using assms by (simp add: update_web_check_def split: sum.splits)

lemma delete_web_check_check:
  assumes "check_mode m"
  shows "snd (delete_web_check zbx m obj st) = st"
  using assms by (simp add: delete_web_check_def split: sum.splits)

lemma main_present_check:
  assumes "check_mode m"
  shows "quiet st (snd (main_present zbx m web_check_name host_name web_check_obj st))"
proof -
  have q1: "quiet st (called (HostGet host_name) st)"
    by (rule quiet_called) simp
  have q2: "quiet st (called (ApplicationGet h a) (called (HostGet host_name) st))" for h a
    by (rule quiet_trans[OF q1 quiet_called]) simp
  show ?thesis
    unfolding main_present_def
    using q1 q2 
    by (auto simp: case_prod_beta quiet_refl get_host_id_snd get_application_id_check[OF assms]
        create_web_check_check[OF assms] update_web_check_check[OF assms]
        split: sum.splits)
qed

lemma main_check:
  assumes "check_mode m"
  shows "quiet st (snd (main has_zabbix_api zbx m st))"
proof -
  let ?st0 = "called (Login (server_url m) (login_user m) (login_password m)) st"
  have q0: "quiet st ?st0"
    by (rule quiet_called) simp
  have q1: "quiet st (called (HostGet h) ?st0)" for h
    by (rule quiet_trans[OF q0 quiet_called]) simp
  have q2: "quiet st (called (WebcheckGet n i) (called (HostGet h) ?st0))" for h n i
    by (rule quiet_trans[OF q1 quiet_called]) simp
  have q3: "quiet st (snd (main_present zbx m n h obj (called (WebcheckGet n i) (called (HostGet h) ?st0))))"
    for h n i obj
    by (rule quiet_trans[OF q2 main_present_check[OF assms]])
  show ?thesis
    unfolding main_def Let_def
    using q0 q1 q2 q3
    by (auto simp: case_prod_beta quiet_refl get_host_id_snd get_web_check_snd
        delete_web_check_check[OF assms]
        split: sum.splits bool.splits option.splits)
qed

text \<open>
  Claim C4. In check mode a run leaves the server as it was and makes no
  \<^verbatim>\<open>create\<close>, \<^verbatim>\<open>update\<close> or \<^verbatim>\<open>delete\<close> call; and each of the four
  mutating branches (the creation of an application, the creation, the update and the
  deletion of a web check), once it has its arguments, exits with
  \<^verbatim>\<open>changed=True\<close> and the remote untouched.
\<close>

theorem check_mode_changes_nothing:
  assumes "check_mode m"
  shows "quiet st (snd (main has_zabbix_api zbx m st)) \<and>
         create_application zbx m host_id application_name st = (Inl (ExitJson True None), st) \<and>
         (\<forall>params. get_web_check_params web_check_name host_id application_id web_check_steps
                      opt PNone PNone = Inr params \<longrightarrow>
            create_web_check zbx m web_check_name host_id application_id web_check_steps opt st
              = (ExitJson True None, st)) \<and>
         (\<forall>httptestid params.
            py_getitem web_check_obj ''httptestid'' = Inr httptestid \<and>
            get_web_check_params web_check_name host_id application_id web_check_steps
              opt web_check_obj httptestid = Inr params \<longrightarrow>
            update_web_check zbx m web_check_obj web_check_name host_id application_id
              web_check_steps opt st = (ExitJson True None, st)) \<and>
         (\<forall>httptestid name.
            py_getitem web_check_obj ''httptestid'' = Inr httptestid \<and>
            py_getitem web_check_obj ''name'' = Inr name \<longrightarrow>
            delete_web_check zbx m web_check_obj st = (ExitJson True None, st))"
proof (intro conjI allI impI)
  show "quiet st (snd (main has_zabbix_api zbx m st))"
    using assms by (rule main_check)
  show "create_application zbx m host_id application_name st = (Inl (ExitJson True None), st)"
    using assms by (rule create_application_check)
next
  fix params
  assume "get_web_check_params web_check_name host_id application_id web_check_steps
            opt PNone PNone = Inr params"
  then show "create_web_check zbx m web_check_name host_id application_id web_check_steps opt st
              = (ExitJson True None, st)"
    using assms by (simp add: create_web_check_def)
next
  fix httptestid params
  assume "py_getitem web_check_obj ''httptestid'' = Inr httptestid \<and>
            get_web_check_params web_check_name host_id application_id web_check_steps
              opt web_check_obj httptestid = Inr params"
  then show "update_web_check zbx m web_check_obj web_check_name host_id application_id
              web_check_steps opt st = (ExitJson True None, st)"
    using assms by (simp add: update_web_check_def)
next
  fix httptestid name
  assume "py_getitem web_check_obj ''httptestid'' = Inr httptestid \<and>
            py_getitem web_check_obj ''name'' = Inr name"
  then show "delete_web_check zbx m web_check_obj st = (ExitJson True None, st)"
    using assms by (simp add: delete_web_check_def)
qed

theorem check_mode_changes_nothing_witness:
  "check_mode (task (PStr ''present'') health_check True) \<and>
   quiet (one_host, []) (snd (main True memory_zapi (task (PStr ''present'') health_check True) (one_host, []))) \<and>
   main True memory_zapi (task (PStr ''present'') health_check True) (one_host, []) =
     (ExitJson True None,
      (one_host,
       [Login (PStr ''http://monitor.example.com'') (PStr ''username'') (PStr ''password''),
        HostGet (PStr ''web01''), WebcheckGet (PStr ''Health Check'') (PStr ''10084''),
        HostGet (PStr ''web01''), ApplicationGet (PStr ''10084'') (PStr ''app'')]))"
proof -
  have c: "check_mode (task (PStr ''present'') health_check True)"
    by (simp add: task_def)
  have e: "main True memory_zapi (task (PStr ''present'') health_check True) (one_host, []) =
     (ExitJson True None,
      (one_host,
       [Login (PStr ''http://monitor.example.com'') (PStr ''username'') (PStr ''password''),
        HostGet (PStr ''web01''), WebcheckGet (PStr ''Health Check'') (PStr ''10084''),
        HostGet (PStr ''web01''), ApplicationGet (PStr ''10084'') (PStr ''app'')]))"
    by code_simp
  from check_mode_changes_nothing[OF c, of "(one_host, [])" True memory_zapi, THEN conjunct1] c e
  show ?thesis by simp
qed

lemma get_value_by_key_lookup:
  "lookup obj k = Some v \<Longrightarrow> get_value_by_key obj k = Inr v"
  by (cases obj) (auto simp: get_value_by_key_def lookup_def py_contains_dict simp del: py_contains.simps
      split: option.splits)

lemma py_contains_lookup: "lookup obj k = Some v \<Longrightarrow> py_contains obj k = Inr True"
  by (cases obj) (auto simp: lookup_def py_contains_dict simp del: py_contains.simps split: option.splits)

lemma get_web_check_none:
  assumes "webcheck_get zbx web_check_name host_id (fst st) = Inr matches" and "py_len matches = Inr 0"
  shows "get_web_check zbx web_check_name host_id st =
           (Inr PNone, called (WebcheckGet web_check_name host_id) st)"
  using assms by (simp add: get_web_check_def Let_def)

text \<open>
  Claim C8. With \<^verbatim>\<open>state=absent\<close>, once the host is resolved and the lookup of
  the web check by name on that host returns no record, the run exits with
  \<^verbatim>\<open>changed=False\<close> and the message "WebCheck ... does not exist"; its only
  remote calls are the login and the two lookups, and the server is as it was.
\<close>

theorem absent_web_check_stays_absent:
  assumes "py_eq (state m) (PStr ''absent'')"
    and "lookup (web_check m) ''web_check_name'' = Some web_check_name"
    and "lookup (web_check m) ''host_name'' = Some host_name" and "truthy host_name"
    and "login zbx (server_url m) (login_user m) (login_password m) (fst st) = None"
    and "fst (get_host_id zbx host_name st) = Inr host_id"
    and "webcheck_get zbx web_check_name host_id (fst st) = Inr matches"
    and "py_len matches = Inr 0"
  shows "main True zbx m st =
           (ExitJson False (Some (does_not_exist web_check_name)),
            (fst st, snd st @ [Login (server_url m) (login_user m) (login_password m),
                               HostGet host_name, WebcheckGet web_check_name host_id])) \<and>
         quiet st (snd (main True zbx m st))"
proof -
  let ?st0 = "called (Login (server_url m) (login_user m) (login_password m)) st"
  let ?st1 = "called (HostGet host_name) ?st0"
  have f0: "fst ?st0 = fst st" by (simp add: called_def)
  have h: "get_host_id zbx host_name ?st0 = (Inr host_id, ?st1)"
    using get_host_id_fst[OF f0, of zbx host_name] assms(6) get_host_id_snd[of zbx host_name ?st0]
    by (metis prod.collapse)
  have w: "get_web_check zbx web_check_name host_id ?st1 =
             (Inr PNone, called (WebcheckGet web_check_name host_id) ?st1)"
    using assms(7,8) by (intro get_web_check_none) (simp_all add: called_def)
  have e: "main True zbx m st =
           (ExitJson False (Some (does_not_exist web_check_name)),
            (fst st, snd st @ [Login (server_url m) (login_user m) (login_password m),
                               HostGet host_name, WebcheckGet web_check_name host_id]))"
    using assms(1,4,5)
    by (simp add: main_def Let_def py_contains_lookup[OF assms(2)] lookup_Some[OF assms(2)]
        get_value_by_key_lookup[OF assms(3)] h w)
      (simp add: called_def)
  show ?thesis
    unfolding e by (simp add: e quiet_def new_calls_def)
qed

theorem absent_web_check_stays_absent_witness:
  "main True memory_zapi (task (PStr ''absent'') health_check False) (one_host, []) =
     (ExitJson False (Some (does_not_exist (PStr ''Health Check''))),
      (one_host,
       [Login (PStr ''http://monitor.example.com'') (PStr ''username'') (PStr ''password''),
        HostGet (PStr ''web01''), WebcheckGet (PStr ''Health Check'') (PStr ''10084'')]))"
proof -
  let ?m = "task (PStr ''absent'') health_check False"
  have a: "py_eq (state ?m) (PStr ''absent'')"
    "lookup (web_check ?m) ''web_check_name'' = Some (PStr ''Health Check'')"
    "lookup (web_check ?m) ''host_name'' = Some (PStr ''web01'')"
    "truthy (PStr ''web01'')"
    "login memory_zapi (server_url ?m) (login_user ?m) (login_password ?m) (fst (one_host, [])) = None"
    by (simp_all add: task_def health_check_def memory_zapi_def)
  have h: "fst (get_host_id memory_zapi (PStr ''web01'') (one_host, [])) = Inr (PStr ''10084'')"
    by code_simp
  have w: "webcheck_get memory_zapi (PStr ''Health Check'') (PStr ''10084'') (fst (one_host, [])) = Inr (PList [])"
    "py_len (PList []) = Inr 0"
    by (simp_all add: memory_zapi_def one_host_def)
  from absent_web_check_stays_absent[OF a h w, THEN conjunct1]
  show ?thesis by (simp add: task_def)
qed

text \<open>Outside check mode a lookup without a match is followed by one creation.\<close>

lemma lookup_is_dict: "lookup v k = Some x \<Longrightarrow> \<exists>d. v = PDict d \<and> map_of d k = Some x"
  by (cases v) (simp_all add: lookup_def split: option.splits)

lemma get_application_id_creates:
  assumes "\<not> check_mode m"
    and "application_get zbx host_id application_name (fst st) = Inr matches"
    and "py_len matches = Inr 0"
    and "application_create zbx host_id application_name (fst st) = (r, s')"
  shows "snd (get_application_id zbx m host_id application_name st) =
           (s', snd st @ [ApplicationGet host_id application_name,
                          ApplicationCreate host_id application_name])"
    and "r = Inr ids \<Longrightarrow> lookup ids ''applicationids'' = Some (PList (i # others)) \<Longrightarrow>
         fst (get_application_id zbx m host_id application_name st) = Inr i"
proof -
  let ?st1 = "called (ApplicationGet host_id application_name) st"
  have c: "create_application zbx m host_id application_name ?st1 =
             ((case r of
                 Inl e \<Rightarrow> Inl (FailJson (Fmt ''Failed to create Application '%s': %s''
                                            [Val application_name, Exn e]))
               | Inr applicationids \<Rightarrow> Inr applicationids),
              (s', snd st @ [ApplicationGet host_id application_name,
                             ApplicationCreate host_id application_name]))"
    using assms(1,4) by (simp add: create_application_def called_def)
  show "snd (get_application_id zbx m host_id application_name st) =
           (s', snd st @ [ApplicationGet host_id application_name,
                          ApplicationCreate host_id application_name])"
    using assms(2,3) by (simp add: get_application_id_def Let_def c split: sum.splits)
  assume r: "r = Inr ids" and l: "lookup ids ''applicationids'' = Some (PList (i # others))"
  from l obtain d where d: "ids = PDict d" "map_of d ''applicationids'' = Some (PList (i # others))"
    using lookup_is_dict by blast
  then have "d \<noteq> []" by auto
  then show "fst (get_application_id zbx m host_id application_name st) = Inr i"
    using assms(2,3) r d by (simp add: get_application_id_def Let_def c)
qed

lemma get_web_check_params_applicationid:
  assumes "get_web_check_params n h a ws opt obj i = Inr params"
    and "optional_properties wc web_scenario_optional_properties_list [] = Inr opt"
  shows "map_of params ''applicationid'' = Some a"
proof -
  from optional_properties_keys[OF assms(2)]
  have k: "fst ` set opt \<subseteq> set web_scenario_optional_properties_list" and d: "distinct (map fst opt)"
    by simp_all
  have "''applicationid'' \<notin> fst ` set opt"
    using k by (auto simp: web_scenario_optional_properties_list_def)
  then have o: "map_of opt ''applicationid'' = None"
    by (simp add: map_of_eq_None_iff)
  from assms(1) obtain steps' where
    "params = dict_merge
                 ((if truthy i then AList.update ''httptestid'' i else id)
                    [(''name'', n), (''applicationid'', a), (''hostid'', h),
                     (''steps'', PList (map PDict steps'))])
                 opt"
    by (auto simp: get_web_check_params_def split: sum.splits)
  then show ?thesis
    by (simp add: map_of_dict_merge[OF d] o update_conv)
qed

lemma create_web_check_calls:
  "snd (snd (create_web_check zbx m n h a ws opt st)) = snd st \<or>
   (\<exists>params. get_web_check_params n h a ws opt PNone PNone = Inr params \<and>
      snd (snd (create_web_check zbx m n h a ws opt st)) = snd st @ [WebcheckCreate params])"
  by (auto simp: create_web_check_def split: sum.splits prod.splits)

lemma update_web_check_calls:
  "snd (snd (update_web_check zbx m obj n h a ws opt st)) = snd st \<or>
   (\<exists>params i. get_web_check_params n h a ws opt obj i = Inr params \<and>
      snd (snd (update_web_check zbx m obj n h a ws opt st)) = snd st @ [WebcheckUpdate params])"
  by (auto simp: update_web_check_def split: sum.splits prod.splits)

text \<open>
  Claim C5, as amended. Outside check mode, when the lookup of the application by host
  identifier and name returns no record, the run makes exactly one
  \<^verbatim>\<open>application.create\<close> call, right after the lookup and before any
  \<^verbatim>\<open>webcheck.create\<close> or \<^verbatim>\<open>webcheck.update\<close> call; and when that call
  returns a result whose \<^verbatim>\<open>applicationids\<close> list is not empty, its first
  element is the application identifier returned by \<^verbatim>\<open>get_application_id\<close> and
  sent with the web check.
\<close>

theorem application_created_once:
  assumes "\<not> check_mode m"
    and "lookup (web_check m) ''application_name'' = Some application_name"
    and "truthy application_name"
    and "fst (get_host_id zbx host_name st) = Inr host_id"
    and "application_get zbx host_id application_name (fst st) = Inr matches"
    and "py_len matches = Inr 0"
    and "application_create zbx host_id application_name (fst st) = (r, s')"
  shows "(\<forall>ids i others. r = Inr ids \<and> lookup ids ''applicationids'' = Some (PList (i # others)) \<longrightarrow>
            fst (get_application_id zbx m host_id application_name st) = Inr i) \<and>
         (\<exists>rest. snd (snd (main_present zbx m web_check_name host_name web_check_obj st)) =
             snd st @ [HostGet host_name, ApplicationGet host_id application_name,
                       ApplicationCreate host_id application_name] @ rest \<and>
            (rest = [] \<or>
             (\<exists>params. (rest = [WebcheckCreate params] \<or> rest = [WebcheckUpdate params]) \<and>
                (\<forall>ids i others. r = Inr ids \<and> lookup ids ''applicationids'' = Some (PList (i # others)) \<longrightarrow>
                   map_of params ''applicationid'' = Some i))))"
proof (intro conjI allI impI)
  fix ids i others
  assume "r = Inr ids \<and> lookup ids ''applicationids'' = Some (PList (i # others))"
  then show "fst (get_application_id zbx m host_id application_name st) = Inr i"
    using get_application_id_creates(2)[OF assms(1,5,6,7)] by blast
next
  let ?st1 = "called (HostGet host_name) st"
  let ?st2 = "(s', snd st @ [HostGet host_name, ApplicationGet host_id application_name,
                       ApplicationCreate host_id application_name])"
  let ?g = "get_application_id zbx m host_id application_name ?st1"
  have h: "get_host_id zbx host_name st = (Inr host_id, ?st1)"
    using assms(4) get_host_id_snd[of zbx host_name st] by (metis prod.collapse)
  have f1: "fst ?st1 = fst st" by (simp add: called_def)
  have g2: "snd ?g = ?st2"
    using get_application_id_creates(1)[OF assms(1), of zbx host_id application_name ?st1 matches r s']
      assms(5,6,7)
    by (simp add: f1) (simp add: called_def)
  have g1: "fst ?g = Inr i" if "r = Inr ids" "lookup ids ''applicationids'' = Some (PList (i # others))"
    for ids i others
    using get_application_id_creates(2)[OF assms(1), of zbx host_id application_name ?st1 matches r s' ids i others]
      assms(5,6,7) that
    by (simp add: f1)
  show "\<exists>rest. snd (snd (main_present zbx m web_check_name host_name web_check_obj st)) =
             snd st @ [HostGet host_name, ApplicationGet host_id application_name,
                       ApplicationCreate host_id application_name] @ rest \<and>
            (rest = [] \<or>
             (\<exists>params. (rest = [WebcheckCreate params] \<or> rest = [WebcheckUpdate params]) \<and>
                (\<forall>ids i others. r = Inr ids \<and> lookup ids ''applicationids'' = Some (PList (i # others)) \<longrightarrow>
                   map_of params ''applicationid'' = Some i)))"
  proof (cases "fst ?g")
    case (Inl out)
    then have "?g = (Inl out, ?st2)" using g2 by (metis prod.collapse)
    then have "main_present zbx m web_check_name host_name web_check_obj st = (out, ?st2)"
      using assms(3)
      by (simp add: main_present_def get_value_by_key_lookup[OF assms(2)] h)
    then show ?thesis by simp
  next
    case (Inr application_id)
    then have g: "?g = (Inr application_id, ?st2)" using g2 by (metis prod.collapse)
    have i: "application_id = i" if "r = Inr ids" "lookup ids ''applicationids'' = Some (PList (i # others))"
      for ids i others
      using g1[OF that] Inr by simp
    show ?thesis
    proof (cases "get_value_by_key (web_check m) ''steps''")
      case (Inl e)
      then have "main_present zbx m web_check_name host_name web_check_obj st = (Uncaught e, ?st2)"
        using assms(3)
        by (simp add: main_present_def get_value_by_key_lookup[OF assms(2)] h g)
      then show ?thesis by simp
    next
      case ws: (Inr web_check_steps)
      show ?thesis
      proof (cases "optional_properties (web_check m) web_scenario_optional_properties_list []")
        case (Inl e)
        then have "main_present zbx m web_check_name host_name web_check_obj st = (Uncaught e, ?st2)"
          using assms(3)
          by (simp add: main_present_def get_value_by_key_lookup[OF assms(2)] h g ws)
        then show ?thesis by simp
      next
        case opt: (Inr opt)
        note a = get_web_check_params_applicationid[OF _ opt]
        show ?thesis
        proof (cases "truthy web_check_obj")
          case False
          then have e: "main_present zbx m web_check_name host_name web_check_obj st =
                  create_web_check zbx m web_check_name host_id application_id web_check_steps opt ?st2"
            using assms(3)
            by (simp add: main_present_def get_value_by_key_lookup[OF assms(2)] h g ws opt)
          from create_web_check_calls[of zbx m web_check_name host_id application_id web_check_steps opt ?st2]
          show ?thesis
            unfolding e using a i by (elim disjE exE conjE) (simp, force)
        next
          case True
          then have e: "main_present zbx m web_check_name host_name web_check_obj st =
                  update_web_check zbx m web_check_obj web_check_name host_id application_id
                    web_check_steps opt ?st2"
            using assms(3)
            by (simp add: main_present_def get_value_by_key_lookup[OF assms(2)] h g ws opt)
          from update_web_check_calls[of zbx m web_check_obj web_check_name host_id application_id
              web_check_steps opt ?st2]
          show ?thesis
            unfolding e using a i by (elim disjE exE conjE) (simp, force)
        qed
      qed
    qed
  qed
qed

theorem application_created_once_witness:
  "fst (get_application_id memory_zapi (task (PStr ''present'') health_check False)
          (PStr ''10084'') (PStr ''app'') (one_host, [])) = Inr (PInt 1) \<and>
   (\<exists>rest. snd (snd (main_present memory_zapi (task (PStr ''present'') health_check False)
                        (PStr ''Health Check'') (PStr ''web01'') PNone (one_host, []))) =
       [HostGet (PStr ''web01''), ApplicationGet (PStr ''10084'') (PStr ''app''),
        ApplicationCreate (PStr ''10084'') (PStr ''app'')] @ rest \<and>
       (rest = [] \<or>
        (\<exists>params. (rest = [WebcheckCreate params] \<or> rest = [WebcheckUpdate params]) \<and>
           map_of params ''applicationid'' = Some (PInt 1))))"
proof -
  let ?m = "task (PStr ''present'') health_check False"
  let ?r = "Inr (PDict [(''applicationids'', PList [PInt 1])]) :: exc + pyval"
  let ?s = "one_host\<lparr>applications :=
               [PDict [(''applicationid'', PInt 1), (''hostid'', PStr ''10084''), (''name'', PStr ''app'')]],
             next_id := 2\<rparr>"
  have a: "\<not> check_mode ?m" "lookup (web_check ?m) ''application_name'' = Some (PStr ''app'')"
    "truthy (PStr ''app'')"
    by (simp_all add: task_def health_check_def)
  have h: "fst (get_host_id memory_zapi (PStr ''web01'') (one_host, [])) = Inr (PStr ''10084'')"
    by code_simp
  have g: "application_get memory_zapi (PStr ''10084'') (PStr ''app'') (fst (one_host, [])) = Inr (PList [])"
    "py_len (PList []) = Inr 0"
    by (simp_all add: memory_zapi_def one_host_def)
  have c: "application_create memory_zapi (PStr ''10084'') (PStr ''app'') (fst (one_host, [])) = (?r, ?s)"
    by (simp add: memory_zapi_def one_host_def)
  have l: "?r = Inr (PDict [(''applicationids'', PList [PInt 1])]) \<and>
           lookup (PDict [(''applicationids'', PList [PInt 1])]) ''applicationids'' = Some (PList (PInt 1 # []))"
    by simp
  note t = application_created_once[OF a h g c, of "PStr ''Health Check''" PNone]
  have 1: "fst (get_application_id memory_zapi ?m (PStr ''10084'') (PStr ''app'') (one_host, [])) = Inr (PInt 1)"
    using t[THEN conjunct1, rule_format, OF l] .
  from t[THEN conjunct2] obtain rest where
    r: "snd (snd (main_present memory_zapi ?m (PStr ''Health Check'') (PStr ''web01'') PNone (one_host, []))) =
         snd (one_host, [] :: call list) @ [HostGet (PStr ''web01''), ApplicationGet (PStr ''10084'') (PStr ''app''),
             ApplicationCreate (PStr ''10084'') (PStr ''app'')] @ rest"
    and d: "rest = [] \<or>
        (\<exists>params. (rest = [WebcheckCreate params] \<or> rest = [WebcheckUpdate params]) \<and>
           (\<forall>ids i others. ?r = Inr ids \<and> lookup ids ''applicationids'' = Some (PList (i # others)) \<longrightarrow>
                   map_of params ''applicationid'' = Some i))"
    by blast
  from d l have "rest = [] \<or>
        (\<exists>params. (rest = [WebcheckCreate params] \<or> rest = [WebcheckUpdate params]) \<and>
           map_of params ''applicationid'' = Some (PInt 1))"
    by blast
  with r 1 show ?thesis by auto
qed

text \<open>
  The claim as first stated speaks of every resolution; in check mode the lookup
  without a match is followed by no creation.
\<close>

theorem application_created_once_counterexample:
  "check_mode (task (PStr ''present'') health_check True) \<and>
   application_get memory_zapi (PStr ''10084'') (PStr ''app'') one_host = Inr (PList []) \<and>
   get_application_id memory_zapi (task (PStr ''present'') health_check True)
     (PStr ''10084'') (PStr ''app'') (one_host, []) =
     (Inl (ExitJson True None), (one_host, [ApplicationGet (PStr ''10084'') (PStr ''app'')]))"
  by code_simp





























text \<open>
  Claim C9 at the failing input: the task names the web check by the empty string. The
  run does not stop at the test of \<^verbatim>\<open>web_check_name\<close>: it logs in, looks the
  host up, asks the server for the web check named by the empty string, and exits
  normally.
\<close>

theorem empty_web_check_name_is_not_rejected:
  "main True memory_zapi (task (PStr ''absent'') unnamed_web_check False) (one_host, []) =
     (ExitJson False (Some (does_not_exist (PStr []))),
      (one_host,
       [Login (PStr ''http://monitor.example.com'') (PStr ''username'') (PStr ''password''),
        HostGet (PStr ''web01''), WebcheckGet (PStr []) (PStr ''10084'')]))"
  by code_simp

end
